theory Spec2Isabelle
  imports Main "HOL-Library.Word"
begin

unbundle bit_operations_syntax

section \<open>Common types\<close>

text \<open>
  A \<open>char\<close> buffer of the program is a list of bytes. Exceptions are values of the type
  \<open>error\<close>; a function that can throw returns \<open>error + 'a\<close> together with the state it
  leaves behind, since whatever it mutated before the \<open>throw\<close> stays mutated.
  \<^item> \<open>InternalError\<close>, \<open>FileNotFoundError\<close>, \<open>UnixError\<close>: the exception classes thrown by
    \<open>disk_manager.cpp\<close>;
  \<^item> \<open>AssertionFailed\<close>: a failed \<open>assert\<close>;
  \<^item> the four \<open>std::runtime_error\<close>s of \<open>rm_file_handle.cpp\<close>, told apart by their message:
    \<open>RecordNotExist\<close> ("Record does not exist at RID"), \<open>NoFreeSlot\<close> ("Failed to find free
    slot in page"), \<open>PageFetchFailed\<close> ("Failed to fetch page"), \<open>NewPageFailed\<close> ("Failed to
    create new page");
  \<^item> \<open>ScanEnded\<close>: the \<open>std::runtime_error\<close> of \<open>RmScan::rid\<close> ("Scan has ended").

  Isabelle keeps names that end in an underscore for itself, so a member \<open>pages_\<close> of
  the source is \<open>pages'\<close> here, and likewise for every member.
\<close>

type_synonym byte = "8 word"

datatype error =
    InternalError
  | FileNotFoundError
  | UnixError
  | AssertionFailed
  | RecordNotExist
  | NoFreeSlot
  | PageFetchFailed
  | NewPageFailed
  | ScanEnded

text \<open>
  \<open>write_bytes buf off bs\<close> is \<open>memcpy(buf + off, bs, length bs)\<close> and \<open>read_bytes buf off n\<close>
  is the \<open>n\<close> bytes at \<open>buf + off\<close>. An access that leaves the buffer is undefined in C++;
  the model then leaves the buffer as it is (write) or returns the bytes that exist (read),
  and every theorem about contents assumes the access is in range.
\<close>

definition write_bytes :: "byte list \<Rightarrow> nat \<Rightarrow> byte list \<Rightarrow> byte list" where
  "write_bytes buf off bs =
     (if off + length bs \<le> length buf
      then take off buf @ bs @ drop (off + length bs) buf
      else buf)"

definition read_bytes :: "byte list \<Rightarrow> nat \<Rightarrow> nat \<Rightarrow> byte list" where
  "read_bytes buf off n = take n (drop off buf)"

definition memset0 :: "byte list \<Rightarrow> nat \<Rightarrow> nat \<Rightarrow> byte list" where
  "memset0 buf off n = write_bytes buf off (replicate n 0)"

text \<open>
  The page counters of the program are \<open>int\<close>s of 32 bits. \<open>wrap32\<close> is the value such
  a counter holds after an increment: the successor, and the smallest \<open>int\<close> after the
  largest.
\<close>

definition wrap32 :: "int \<Rightarrow> int" where
  "wrap32 v = sint (word_of_int v :: 32 word)"

section \<open>DiskManager (storage/disk\_manager.cpp)\<close>

text \<open>
  The operating system the disk manager talks to is part of the state: \<open>os_files\<close> is the
  file system (path to contents) and \<open>os_fds\<close> the descriptors the process has open, each
  with its path. The four tables of the class follow. \<open>PAGE_SIZE\<close> comes from
  \<open>common/config.h\<close>, which is not among the sources: it is the first parameter of every
  function that uses it. Byte counts (\<open>num_bytes\<close>) are natural numbers.
\<close>

record DiskManager =
  os_files :: "string \<rightharpoonup> byte list"
  os_fds :: "(int \<times> string) list"
  fd_occupied' :: "int \<Rightarrow> bool"
  fd2path' :: "int \<rightharpoonup> string"
  path2fd' :: "string \<rightharpoonup> int"
  fd2pageno' :: "int \<Rightarrow> int"

definition MAX_FD :: int where
  "MAX_FD = 1024"

subsection \<open>The system calls\<close>

text \<open>
  \<open>fstat\<close> gives the size of the file behind a descriptor and fails on a descriptor that
  is not open. \<open>lseek(fd, off, SEEK_SET)\<close> fails on such a descriptor and on a negative
  offset. \<open>read\<close> returns the bytes between the position and the end of the file, at most
  \<open>n\<close>. \<open>write\<close> of at least one byte past the end fills the gap with zeros; \<open>write\<close> of no
  byte changes nothing. \<open>open\<close> returns the lowest descriptor that is not open.
\<close>

definition os_contents :: "DiskManager \<Rightarrow> int \<Rightarrow> byte list option" where
  "os_contents dm fd =
     (case map_of (os_fds dm) fd of
        None \<Rightarrow> None
      | Some path \<Rightarrow> os_files dm path)"

definition os_fstat :: "DiskManager \<Rightarrow> int \<Rightarrow> nat option" where
  "os_fstat dm fd = map_option length (os_contents dm fd)"

definition os_lseek :: "DiskManager \<Rightarrow> int \<Rightarrow> int \<Rightarrow> nat option" where
  "os_lseek dm fd off =
     (case os_contents dm fd of
        None \<Rightarrow> None
      | Some c \<Rightarrow> if off < 0 then None else Some (nat off))"

definition os_read :: "DiskManager \<Rightarrow> int \<Rightarrow> nat \<Rightarrow> nat \<Rightarrow> byte list" where
  "os_read dm fd pos n =
     (case os_contents dm fd of
        None \<Rightarrow> []
      | Some c \<Rightarrow> take n (drop pos c))"

definition file_write :: "byte list \<Rightarrow> nat \<Rightarrow> byte list \<Rightarrow> byte list" where
  "file_write c pos bs =
     (if bs = [] then c
      else take pos (c @ replicate (pos - length c) 0) @ bs @ drop (pos + length bs) c)"

definition os_write :: "DiskManager \<Rightarrow> int \<Rightarrow> nat \<Rightarrow> byte list \<Rightarrow> DiskManager" where
  "os_write dm fd pos bs =
     (case map_of (os_fds dm) fd of
        None \<Rightarrow> dm
      | Some path \<Rightarrow>
          (case os_files dm path of
             None \<Rightarrow> dm
           | Some c \<Rightarrow> dm\<lparr>os_files := (os_files dm)(path \<mapsto> file_write c pos bs)\<rparr>))"

definition os_lowest_fd :: "(int \<times> string) list \<Rightarrow> int" where
  "os_lowest_fd fds =
     (case find (\<lambda>n. n \<notin> fst ` set fds) (map int [0..<Suc (length fds)]) of
        Some n \<Rightarrow> n
      | None \<Rightarrow> int (length fds))"

definition os_close :: "DiskManager \<Rightarrow> int \<Rightarrow> DiskManager" where
  "os_close dm fd = dm\<lparr>os_fds := filter (\<lambda>e. fst e \<noteq> fd) (os_fds dm)\<rparr>"

subsection \<open>Page input and output\<close>

text \<open>
  \<open>write_page\<close>: seek to \<open>page_no * PAGE_SIZE\<close>, write the first \<open>num_bytes\<close> bytes of the
  buffer, throw when fewer were written. The disk is unchanged when it throws.
\<close>

definition write_page ::
  "nat \<Rightarrow> DiskManager \<Rightarrow> int \<Rightarrow> int \<Rightarrow> byte list \<Rightarrow> nat \<Rightarrow> error + DiskManager" where
  "write_page PAGE_SIZE dm fd page_no offset num_bytes =
     (let page_offset = page_no * int PAGE_SIZE in
      case os_lseek dm fd page_offset of
        None \<Rightarrow> Inl InternalError
      | Some pos \<Rightarrow>
          (let bytes = take num_bytes offset in
           if length bytes \<noteq> num_bytes then Inl InternalError
           else Inr (os_write dm fd pos bytes)))"

text \<open>
  \<open>read_page\<close> returns its outcome and the buffer \<open>offset\<close> as it leaves it: a short read
  has already stored the bytes it got when the exception is thrown.
\<close>

definition read_page ::
  "nat \<Rightarrow> DiskManager \<Rightarrow> int \<Rightarrow> int \<Rightarrow> byte list \<Rightarrow> nat \<Rightarrow> (error + unit) \<times> byte list" where
  "read_page PAGE_SIZE dm fd page_no offset num_bytes =
     (let page_offset = page_no * int PAGE_SIZE in
      case os_fstat dm fd of
        None \<Rightarrow> (Inl InternalError, offset)
      | Some st_size \<Rightarrow>
          if page_offset \<ge> int st_size then (Inr (), memset0 offset 0 num_bytes)
          else
            (case os_lseek dm fd page_offset of
               None \<Rightarrow> (Inl InternalError, offset)
             | Some pos \<Rightarrow>
                 (let got = os_read dm fd pos num_bytes in
                  if length got \<noteq> num_bytes
                  then (Inl InternalError, write_bytes offset 0 got)
                  else (Inr (), write_bytes offset 0 got))))"

text \<open>
  \<open>allocate_page\<close> is \<open>return fd2pageno_[fd]++\<close> after the assertion on \<open>fd\<close>. The counter is
  a \<open>page_id_t\<close>, an \<open>int\<close> of 32 bits, so after the largest number it continues with the
  smallest.
\<close>

definition allocate_page :: "DiskManager \<Rightarrow> int \<Rightarrow> error + (int \<times> DiskManager)" where
  "allocate_page dm fd =
     (if fd \<ge> 0 \<and> fd < MAX_FD
      then Inr (fd2pageno' dm fd,
                dm\<lparr>fd2pageno' := (fd2pageno' dm)(fd := wrap32 (fd2pageno' dm fd + 1))\<rparr>)
      else Inl AssertionFailed)"

subsection \<open>Files and descriptors\<close>

definition is_file :: "DiskManager \<Rightarrow> string \<Rightarrow> bool" where
  "is_file dm path = (os_files dm path \<noteq> None)"

definition open_file :: "DiskManager \<Rightarrow> string \<Rightarrow> (error + int) \<times> DiskManager" where
  "open_file dm path =
     (if \<not> is_file dm path then (Inl FileNotFoundError, dm)
      else
        (let fd = os_lowest_fd (os_fds dm);
             dm1 = dm\<lparr>os_fds := (fd, path) # os_fds dm\<rparr>
         in if fd = - 1 then (Inl UnixError, dm)
            else if fd \<ge> MAX_FD then (Inl InternalError, os_close dm1 fd)
            else if fd_occupied' dm1 fd then (Inl InternalError, os_close dm1 fd)
            else (Inr fd, dm1\<lparr>fd_occupied' := (fd_occupied' dm1)(fd := True),
                               fd2path' := (fd2path' dm1)(fd \<mapsto> path)\<rparr>)))"

definition close_file :: "DiskManager \<Rightarrow> int \<Rightarrow> (error + unit) \<times> DiskManager" where
  "close_file dm fd =
     (if fd < 0 \<or> fd \<ge> MAX_FD then (Inl InternalError, dm)
      else if \<not> fd_occupied' dm fd then (Inl InternalError, dm)
      else if map_of (os_fds dm) fd = None then (Inl UnixError, dm)
      else (Inr (), (os_close dm fd)\<lparr>fd_occupied' := (fd_occupied' dm)(fd := False),
                                      fd2path' := (fd2path' dm)(fd := None)\<rparr>))"

definition get_file_fd :: "DiskManager \<Rightarrow> string \<Rightarrow> (error + int) \<times> DiskManager" where
  "get_file_fd dm file_name =
     (case path2fd' dm file_name of
        None \<Rightarrow> open_file dm file_name
      | Some fd \<Rightarrow> (Inr fd, dm))"

text \<open>The state the constructor leaves: every table empty, every counter 0.\<close>

definition DiskManager_new :: "(string \<rightharpoonup> byte list) \<Rightarrow> (int \<times> string) list \<Rightarrow> DiskManager" where
  "DiskManager_new files fds =
     \<lparr>os_files = files, os_fds = fds, fd_occupied' = (\<lambda>fd. False), fd2path' = Map.empty,
      path2fd' = Map.empty, fd2pageno' = (\<lambda>fd. 0)\<rparr>"

section \<open>LRUReplacer (replacer/lru\_replacer.cpp)\<close>

text \<open>
  \<open>LRUlist'\<close> is the \<open>std::list\<close>, front first. \<open>LRUhash'\<close> maps a frame to the list iterator
  of its entry; the model keeps its key set, and erasing through the iterator of frame
  \<open>f\<close> erases the entry \<open>f\<close> of the list.
\<close>

record LRUReplacer =
  LRUlist' :: "nat list"
  LRUhash' :: "nat set"
  max_size' :: nat

definition LRUReplacer_new :: "nat \<Rightarrow> LRUReplacer" where
  "LRUReplacer_new num_pages = \<lparr>LRUlist' = [], LRUhash' = {}, max_size' = num_pages\<rparr>"

definition victim :: "LRUReplacer \<Rightarrow> nat option \<times> LRUReplacer" where
  "victim r =
     (if LRUlist' r = [] then (None, r)
      else
        (let frame_id = last (LRUlist' r) in
         (Some frame_id, r\<lparr>LRUhash' := LRUhash' r - {frame_id},
                            LRUlist' := butlast (LRUlist' r)\<rparr>)))"

definition pin :: "LRUReplacer \<Rightarrow> nat \<Rightarrow> LRUReplacer" where
  "pin r frame_id =
     (if frame_id \<in> LRUhash' r
      then r\<lparr>LRUlist' := remove1 frame_id (LRUlist' r), LRUhash' := LRUhash' r - {frame_id}\<rparr>
      else r)"

definition unpin :: "LRUReplacer \<Rightarrow> nat \<Rightarrow> LRUReplacer" where
  "unpin r frame_id =
     (if frame_id \<in> LRUhash' r then r
      else r\<lparr>LRUlist' := frame_id # LRUlist' r, LRUhash' := insert frame_id (LRUhash' r)\<rparr>)"

definition Size :: "LRUReplacer \<Rightarrow> nat" where
  "Size r = length (LRUlist' r)"

section \<open>BufferPoolManager (storage/buffer\_pool\_manager.cpp)\<close>

record PageId =
  fd :: int
  page_no :: int

record Page =
  id' :: PageId
  data' :: "byte list"
  is_dirty' :: bool
  pin_count' :: int

text \<open>
  \<open>pages'\<close> is the array of frames, \<open>pool_size'\<close> its length; a \<open>Page*\<close> is the index of the
  frame. The replacer and the disk manager, which the class holds by pointer, are part
  of the state.
\<close>

record BufferPoolManager =
  pages' :: "Page list"
  page_table' :: "PageId \<rightharpoonup> nat"
  free_list' :: "nat list"
  replacer' :: LRUReplacer
  disk_manager' :: DiskManager

definition INVALID_PAGE_ID :: int where
  "INVALID_PAGE_ID = - 1"

text \<open>
  Modelled from the spec: the constructor of BufferPoolManager, which is in
  \<open>buffer_pool_manager.h\<close>. An empty pool of \<open>pool_size\<close> frames: every frame free, in
  index order, no page cached, nothing evictable, the frames holding \<open>PAGE_SIZE\<close> zero bytes.
\<close>

definition BufferPoolManager_new :: "nat \<Rightarrow> nat \<Rightarrow> DiskManager \<Rightarrow> BufferPoolManager" where
  "BufferPoolManager_new PAGE_SIZE pool_size dm =
     \<lparr>pages' = replicate pool_size
                 \<lparr>id' = \<lparr>fd = - 1, page_no = INVALID_PAGE_ID\<rparr>,
                  data' = replicate PAGE_SIZE 0, is_dirty' = False, pin_count' = 0\<rparr>,
      page_table' = Map.empty,
      free_list' = [0..<pool_size],
      replacer' = LRUReplacer_new pool_size,
      disk_manager' = dm\<rparr>"

definition find_victim_page ::
  "nat \<Rightarrow> BufferPoolManager \<Rightarrow> (error + nat option) \<times> BufferPoolManager" where
  "find_victim_page PAGE_SIZE b =
     (case free_list' b of
        frame_id # rest \<Rightarrow> (Inr (Some frame_id), b\<lparr>free_list' := rest\<rparr>)
      | [] \<Rightarrow>
          (case victim (replacer' b) of
             (None, r) \<Rightarrow> (Inr None, b\<lparr>replacer' := r\<rparr>)
           | (Some frame_id, r) \<Rightarrow>
               (let b1 = b\<lparr>replacer' := r\<rparr>;
                    victim_page = pages' b1 ! frame_id
                in if is_dirty' victim_page
                   then
                     (case write_page PAGE_SIZE (disk_manager' b1) (fd (id' victim_page))
                             (page_no (id' victim_page)) (data' victim_page) PAGE_SIZE of
                        Inl e \<Rightarrow> (Inl e, b1)
                      | Inr dm \<Rightarrow>
                          (Inr (Some frame_id),
                           b1\<lparr>disk_manager' := dm,
                              pages' := (pages' b1)[frame_id := victim_page\<lparr>is_dirty' := False\<rparr>],
                              page_table' := (page_table' b1)(id' victim_page := None)\<rparr>))
                   else
                     (Inr (Some frame_id),
                      b1\<lparr>page_table' := (page_table' b1)(id' victim_page := None)\<rparr>))))"

definition update_page :: "Page \<Rightarrow> PageId \<Rightarrow> nat \<Rightarrow> Page" where
  "update_page page new_page_id new_frame_id = page\<lparr>id' := new_page_id\<rparr>"

text \<open>
  \<open>new_page\<close> returns the frame and the page id it stored through its out-parameter;
  \<open>None\<close> is \<open>nullptr\<close>.
\<close>

definition new_page ::
  "nat \<Rightarrow> BufferPoolManager \<Rightarrow> PageId \<Rightarrow> (error + (nat \<times> PageId) option) \<times> BufferPoolManager" where
  "new_page PAGE_SIZE b page_id =
     (case find_victim_page PAGE_SIZE b of
        (Inl e, b1) \<Rightarrow> (Inl e, b1)
      | (Inr None, b1) \<Rightarrow> (Inr None, b1)
      | (Inr (Some frame_id), b1) \<Rightarrow>
          (case allocate_page (disk_manager' b1) (fd page_id) of
             Inl e \<Rightarrow> (Inl e, b1)
           | Inr (pno, dm) \<Rightarrow>
               (let page_id1 = page_id\<lparr>page_no := pno\<rparr>;
                    page = update_page (pages' b1 ! frame_id) page_id1 frame_id;
                    page1 = page\<lparr>pin_count' := 1, is_dirty' := False\<rparr>
                in (Inr (Some (frame_id, page_id1)),
                    b1\<lparr>disk_manager' := dm,
                       pages' := (pages' b1)[frame_id := page1],
                       page_table' := (page_table' b1)(page_id1 \<mapsto> frame_id),
                       replacer' := pin (replacer' b1) frame_id\<rparr>))))"

definition fetch_page ::
  "nat \<Rightarrow> BufferPoolManager \<Rightarrow> PageId \<Rightarrow> (error + nat option) \<times> BufferPoolManager" where
  "fetch_page PAGE_SIZE b page_id =
     (case page_table' b page_id of
        Some frame_id \<Rightarrow>
          (let page = pages' b ! frame_id in
           (Inr (Some frame_id),
            b\<lparr>pages' := (pages' b)[frame_id := page\<lparr>pin_count' := pin_count' page + 1\<rparr>],
              replacer' := pin (replacer' b) frame_id\<rparr>))
      | None \<Rightarrow>
          (case find_victim_page PAGE_SIZE b of
             (Inl e, b1) \<Rightarrow> (Inl e, b1)
           | (Inr None, b1) \<Rightarrow> (Inr None, b1)
           | (Inr (Some frame_id), b1) \<Rightarrow>
               (let page = update_page (pages' b1 ! frame_id) page_id frame_id in
                case read_page PAGE_SIZE (disk_manager' b1) (fd page_id) (page_no page_id)
                       (data' page) PAGE_SIZE of
                  (Inl e, buf) \<Rightarrow>
                    (Inl e, b1\<lparr>pages' := (pages' b1)[frame_id := page\<lparr>data' := buf\<rparr>]\<rparr>)
                | (Inr u, buf) \<Rightarrow>
                    (let page1 = page\<lparr>data' := buf, pin_count' := 1, is_dirty' := False\<rparr>
                     in (Inr (Some frame_id),
                         b1\<lparr>pages' := (pages' b1)[frame_id := page1],
                            page_table' := (page_table' b1)(page_id \<mapsto> frame_id),
                            replacer' := pin (replacer' b1) frame_id\<rparr>)))))"

definition unpin_page :: "BufferPoolManager \<Rightarrow> PageId \<Rightarrow> bool \<Rightarrow> bool \<times> BufferPoolManager" where
  "unpin_page b page_id is_dirty =
     (case page_table' b page_id of
        None \<Rightarrow> (False, b)
      | Some frame_id \<Rightarrow>
          (let page = pages' b ! frame_id in
           if pin_count' page \<le> 0 then (False, b)
           else
             (let page1 = (if is_dirty then page\<lparr>is_dirty' := True\<rparr> else page);
                  page2 = page1\<lparr>pin_count' := pin_count' page1 - 1\<rparr>;
                  b1 = b\<lparr>pages' := (pages' b)[frame_id := page2]\<rparr>
              in if pin_count' page2 = 0
                 then (True, b1\<lparr>replacer' := unpin (replacer' b1) frame_id\<rparr>)
                 else (True, b1))))"

definition delete_page :: "BufferPoolManager \<Rightarrow> PageId \<Rightarrow> bool \<times> BufferPoolManager" where
  "delete_page b page_id =
     (case page_table' b page_id of
        None \<Rightarrow> (True, b)
      | Some frame_id \<Rightarrow>
          (let page = pages' b ! frame_id in
           if pin_count' page > 0 then (False, b)
           else
             (let page1 = page\<lparr>is_dirty' := False,
                               id' := \<lparr>fd = INVALID_PAGE_ID, page_no = INVALID_PAGE_ID\<rparr>\<rparr>
              in (True,
                  b\<lparr>page_table' := (page_table' b)(page_id := None),
                    pages' := (pages' b)[frame_id := page1],
                    free_list' := free_list' b @ [frame_id],
                    replacer' := pin (replacer' b) frame_id\<rparr>))))"

definition flush_page ::
  "nat \<Rightarrow> BufferPoolManager \<Rightarrow> PageId \<Rightarrow> (error + bool) \<times> BufferPoolManager" where
  "flush_page PAGE_SIZE b page_id =
     (case page_table' b page_id of
        None \<Rightarrow> (Inr False, b)
      | Some frame_id \<Rightarrow>
          (let page = pages' b ! frame_id in
           case write_page PAGE_SIZE (disk_manager' b) (fd page_id) (page_no page_id)
                  (data' page) PAGE_SIZE of
             Inl e \<Rightarrow> (Inl e, b)
           | Inr dm \<Rightarrow>
               (Inr True,
                b\<lparr>disk_manager' := dm,
                  pages' := (pages' b)[frame_id := page\<lparr>is_dirty' := False\<rparr>]\<rparr>)))"

text \<open>The loop of \<open>flush_all_pages\<close> over the frames \<open>i = 0, ..., pool_size' - 1\<close>.\<close>

fun flush_frames ::
  "nat \<Rightarrow> int \<Rightarrow> nat list \<Rightarrow> BufferPoolManager \<Rightarrow> (error + unit) \<times> BufferPoolManager" where
  "flush_frames PAGE_SIZE fd0 [] b = (Inr (), b)"
| "flush_frames PAGE_SIZE fd0 (i # is) b =
     (let page = pages' b ! i in
      if fd (id' page) = fd0
      then
        (case write_page PAGE_SIZE (disk_manager' b) fd0 (page_no (id' page))
                (data' page) PAGE_SIZE of
           Inl e \<Rightarrow> (Inl e, b)
         | Inr dm \<Rightarrow>
             flush_frames PAGE_SIZE fd0 is
               (b\<lparr>disk_manager' := dm, pages' := (pages' b)[i := page\<lparr>is_dirty' := False\<rparr>]\<rparr>))
      else flush_frames PAGE_SIZE fd0 is b)"

definition flush_all_pages ::
  "nat \<Rightarrow> BufferPoolManager \<Rightarrow> int \<Rightarrow> (error + unit) \<times> BufferPoolManager" where
  "flush_all_pages PAGE_SIZE b fd0 = flush_frames PAGE_SIZE fd0 [0..<length (pages' b)] b"

section \<open>Page layout of a record file\<close>

text \<open>
  Modelled from the spec: the declarations of \<open>rm_defs.h\<close> and \<open>bitmap.h\<close>, which are not
  among the sources. A data page is the page header \<open>{next_free_page: int32,
  live_record_count: int32}\<close>, then \<open>bitmap_size\<close> bytes of bitmap, then
  \<open>num_records_per_page\<close> slots of \<open>record_size\<close> bytes. An \<open>int32\<close> lies in the page as
  four bytes, lowest first, in two's complement; the header fields held in memory are
  integers. The fields of a \<open>Rid\<close> are \<open>page_no\<close> and \<open>slot_no\<close> in the source; the first
  is \<open>rid_page_no\<close> here because \<open>PageId\<close> has a \<open>page_no\<close> too.
\<close>

record RmFileHdr =
  record_size :: int
  num_pages :: int
  num_records_per_page :: int
  first_free_page_no :: int
  bitmap_size :: int

record Rid =
  rid_page_no :: int
  slot_no :: int

definition RM_NO_FREE_PAGE :: int where
  "RM_NO_FREE_PAGE = - 1"

definition INT_MAX :: int where
  "INT_MAX = 2147483647"

definition sizeof_RmPageHdr :: nat where
  "sizeof_RmPageHdr = 8"

definition OFFSET_NEXT_FREE_PAGE_NO :: nat where
  "OFFSET_NEXT_FREE_PAGE_NO = 0"

definition OFFSET_NUM_RECORDS :: nat where
  "OFFSET_NUM_RECORDS = 4"

definition enc_int32 :: "int \<Rightarrow> byte list" where
  "enc_int32 v =
     (let w = (word_of_int v :: 32 word)
      in [ucast w, ucast (drop_bit 8 w), ucast (drop_bit 16 w), ucast (drop_bit 24 w)])"

definition dec_int32 :: "byte \<Rightarrow> byte \<Rightarrow> byte \<Rightarrow> byte \<Rightarrow> int" where
  "dec_int32 b0 b1 b2 b3 =
     sint ((ucast b0 OR push_bit 8 (ucast b1) OR push_bit 16 (ucast b2)
            OR push_bit 24 (ucast b3)) :: 32 word)"

definition rd_int32 :: "byte list \<Rightarrow> nat \<Rightarrow> int" where
  "rd_int32 buf off = dec_int32 (buf ! off) (buf ! (off + 1)) (buf ! (off + 2)) (buf ! (off + 3))"

definition wr_int32 :: "byte list \<Rightarrow> nat \<Rightarrow> int \<Rightarrow> byte list" where
  "wr_int32 buf off v = write_bytes buf off (enc_int32 v)"

text \<open>
  Modelled from the spec: the class \<open>Bitmap\<close>. One bit per slot, bit \<open>pos\<close> in byte
  \<open>pos div 8\<close> of the bitmap that starts at offset \<open>bm\<close> of the page; \<open>first_bit\<close> is the
  first-fit scan for the lowest position below \<open>max_n\<close> whose bit has the wanted value,
  and the value \<open>insert_record\<close> tests for (the largest \<open>int\<close>) when there is none.
\<close>

definition Bitmap_init :: "byte list \<Rightarrow> nat \<Rightarrow> int \<Rightarrow> byte list" where
  "Bitmap_init buf bm sz = memset0 buf bm (nat sz)"

definition Bitmap_set :: "byte list \<Rightarrow> nat \<Rightarrow> int \<Rightarrow> byte list" where
  "Bitmap_set buf bm pos =
     buf[bm + nat pos div 8 := set_bit (nat pos mod 8) (buf ! (bm + nat pos div 8))]"

definition Bitmap_reset :: "byte list \<Rightarrow> nat \<Rightarrow> int \<Rightarrow> byte list" where
  "Bitmap_reset buf bm pos =
     buf[bm + nat pos div 8 := unset_bit (nat pos mod 8) (buf ! (bm + nat pos div 8))]"

definition Bitmap_is_set :: "byte list \<Rightarrow> nat \<Rightarrow> int \<Rightarrow> bool" where
  "Bitmap_is_set buf bm pos = bit (buf ! (bm + nat pos div 8)) (nat pos mod 8)"

definition Bitmap_first_bit :: "bool \<Rightarrow> byte list \<Rightarrow> nat \<Rightarrow> int \<Rightarrow> int" where
  "Bitmap_first_bit b buf bm max_n =
     (case find (\<lambda>i. Bitmap_is_set buf bm i = b) (map int [0..<nat max_n]) of
        Some i \<Rightarrow> i
      | None \<Rightarrow> INT_MAX)"

section \<open>RmFileHandle (record/rm\_file\_handle.cpp)\<close>

text \<open>
  The handle holds the file header, the descriptor and the buffer pool it works on. An
  \<open>RmPageHandle\<close> is the frame of the pinned page with the offsets of the page header and
  of the bitmap in the data of that frame; the data itself stays in the pool, so a write
  through the handle is a write to the frame.
\<close>

record RmFileHandle =
  file_hdr' :: RmFileHdr
  fd' :: int
  buffer_pool_manager' :: BufferPoolManager

record RmPageHandle =
  page :: nat
  page_hdr :: nat
  bitmap :: nat

text \<open>
  \<open>page_data\<close> and \<open>set_page_data\<close> read and write the bytes behind \<open>page->get_data()\<close>,
  \<open>get_page_id\<close> is \<open>page->get_page_id()\<close>, and \<open>unpin_in\<close> is a call of
  \<open>buffer_pool_manager_->unpin_page\<close> whose result the caller drops, as every caller in
  this file does.
\<close>

definition page_data :: "RmFileHandle \<Rightarrow> RmPageHandle \<Rightarrow> byte list" where
  "page_data fh ph = data' (pages' (buffer_pool_manager' fh) ! page ph)"

definition set_page_data :: "RmFileHandle \<Rightarrow> RmPageHandle \<Rightarrow> byte list \<Rightarrow> RmFileHandle" where
  "set_page_data fh ph d =
     (let b = buffer_pool_manager' fh
      in fh\<lparr>buffer_pool_manager' :=
              b\<lparr>pages' := (pages' b)[page ph := (pages' b ! page ph)\<lparr>data' := d\<rparr>]\<rparr>\<rparr>)"

definition get_page_id :: "RmFileHandle \<Rightarrow> RmPageHandle \<Rightarrow> PageId" where
  "get_page_id fh ph = id' (pages' (buffer_pool_manager' fh) ! page ph)"

text \<open>
  Modelled from the spec: \<open>RmPageHandle::get_slot\<close> of \<open>rm_defs.h\<close>, the offset of slot
  \<open>slot_no\<close>: the slots follow the bitmap.
\<close>

definition get_slot :: "RmFileHdr \<Rightarrow> RmPageHandle \<Rightarrow> int \<Rightarrow> nat" where
  "get_slot hdr ph slot = bitmap ph + nat (bitmap_size hdr) + nat (slot * record_size hdr)"

definition unpin_in :: "RmFileHandle \<Rightarrow> PageId \<Rightarrow> bool \<Rightarrow> RmFileHandle" where
  "unpin_in fh page_id is_dirty =
     fh\<lparr>buffer_pool_manager' := snd (unpin_page (buffer_pool_manager' fh) page_id is_dirty)\<rparr>"

definition fetch_page_handle ::
  "nat \<Rightarrow> RmFileHandle \<Rightarrow> int \<Rightarrow> (error + RmPageHandle) \<times> RmFileHandle" where
  "fetch_page_handle PAGE_SIZE fh pno =
     (case fetch_page PAGE_SIZE (buffer_pool_manager' fh) \<lparr>fd = fd' fh, page_no = pno\<rparr> of
        (Inl e, b1) \<Rightarrow> (Inl e, fh\<lparr>buffer_pool_manager' := b1\<rparr>)
      | (Inr None, b1) \<Rightarrow> (Inl PageFetchFailed, fh\<lparr>buffer_pool_manager' := b1\<rparr>)
      | (Inr (Some frame_id), b1) \<Rightarrow>
          (Inr \<lparr>page = frame_id, page_hdr = 0, bitmap = sizeof_RmPageHdr\<rparr>,
           fh\<lparr>buffer_pool_manager' := b1\<rparr>))"

definition create_new_page_handle ::
  "nat \<Rightarrow> RmFileHandle \<Rightarrow> (error + RmPageHandle) \<times> RmFileHandle" where
  "create_new_page_handle PAGE_SIZE fh =
     (case new_page PAGE_SIZE (buffer_pool_manager' fh)
             \<lparr>fd = fd' fh, page_no = INVALID_PAGE_ID\<rparr> of
        (Inl e, b1) \<Rightarrow> (Inl e, fh\<lparr>buffer_pool_manager' := b1\<rparr>)
      | (Inr None, b1) \<Rightarrow> (Inl NewPageFailed, fh\<lparr>buffer_pool_manager' := b1\<rparr>)
      | (Inr (Some (frame_id, page_id)), b1) \<Rightarrow>
          (let fh1 = fh\<lparr>buffer_pool_manager' := b1\<rparr>;
               ph = \<lparr>page = frame_id, page_hdr = 0, bitmap = sizeof_RmPageHdr\<rparr>;
               d1 = wr_int32 (page_data fh1 ph) (page_hdr ph + OFFSET_NEXT_FREE_PAGE_NO)
                      RM_NO_FREE_PAGE;
               d2 = wr_int32 d1 (page_hdr ph + OFFSET_NUM_RECORDS) 0;
               d3 = Bitmap_init d2 (bitmap ph) (bitmap_size (file_hdr' fh1));
               fh2 = set_page_data fh1 ph d3
           in (Inr ph,
               fh2\<lparr>file_hdr' :=
                     (file_hdr' fh2)\<lparr>num_pages := wrap32 (num_pages (file_hdr' fh2) + 1)\<rparr>\<rparr>)))"

definition create_page_handle ::
  "nat \<Rightarrow> RmFileHandle \<Rightarrow> (error + RmPageHandle) \<times> RmFileHandle" where
  "create_page_handle PAGE_SIZE fh =
     (if first_free_page_no (file_hdr' fh) \<noteq> RM_NO_FREE_PAGE
      then fetch_page_handle PAGE_SIZE fh (first_free_page_no (file_hdr' fh))
      else create_new_page_handle PAGE_SIZE fh)"

definition release_page_handle :: "RmFileHandle \<Rightarrow> RmPageHandle \<Rightarrow> RmFileHandle" where
  "release_page_handle fh ph =
     (let d1 = wr_int32 (page_data fh ph) (page_hdr ph + OFFSET_NEXT_FREE_PAGE_NO)
                 (first_free_page_no (file_hdr' fh));
          fh1 = set_page_data fh ph d1;
          fh2 = fh1\<lparr>file_hdr' :=
                      (file_hdr' fh1)\<lparr>first_free_page_no := page_no (get_page_id fh1 ph)\<rparr>\<rparr>
      in unpin_in fh2 (get_page_id fh2 ph) True)"

text \<open>An \<open>RmRecord\<close> is the \<open>record_size\<close> bytes it owns.\<close>

definition get_record ::
  "nat \<Rightarrow> RmFileHandle \<Rightarrow> Rid \<Rightarrow> (error + byte list) \<times> RmFileHandle" where
  "get_record PAGE_SIZE fh rid =
     (case fetch_page_handle PAGE_SIZE fh (rid_page_no rid) of
        (Inl e, fh1) \<Rightarrow> (Inl e, fh1)
      | (Inr ph, fh1) \<Rightarrow>
          if \<not> Bitmap_is_set (page_data fh1 ph) (bitmap ph) (slot_no rid)
          then (Inl RecordNotExist, unpin_in fh1 (get_page_id fh1 ph) False)
          else
            (let record_data = get_slot (file_hdr' fh1) ph (slot_no rid);
                 rec = read_bytes (page_data fh1 ph) record_data
                         (nat (record_size (file_hdr' fh1)))
             in (Inr rec, unpin_in fh1 (get_page_id fh1 ph) False)))"

definition insert_record ::
  "nat \<Rightarrow> RmFileHandle \<Rightarrow> byte list \<Rightarrow> (error + Rid) \<times> RmFileHandle" where
  "insert_record PAGE_SIZE fh buf =
     (case create_page_handle PAGE_SIZE fh of
        (Inl e, fh1) \<Rightarrow> (Inl e, fh1)
      | (Inr ph, fh1) \<Rightarrow>
          (let slot = Bitmap_first_bit False (page_data fh1 ph) (bitmap ph)
                        (num_records_per_page (file_hdr' fh1))
           in if slot = INT_MAX
              then (Inl NoFreeSlot, unpin_in fh1 (get_page_id fh1 ph) False)
              else
                (let d1 = Bitmap_set (page_data fh1 ph) (bitmap ph) slot;
                     d2 = write_bytes d1 (get_slot (file_hdr' fh1) ph slot)
                            (take (nat (record_size (file_hdr' fh1))) buf);
                     d3 = wr_int32 d2 (page_hdr ph + OFFSET_NUM_RECORDS)
                            (rd_int32 d2 (page_hdr ph + OFFSET_NUM_RECORDS) + 1);
                     fh2 = set_page_data fh1 ph d3;
                     new_rid = \<lparr>rid_page_no = page_no (get_page_id fh2 ph), slot_no = slot\<rparr>;
                     fh3 =
                       (if rd_int32 d3 (page_hdr ph + OFFSET_NUM_RECORDS)
                             = num_records_per_page (file_hdr' fh2)
                           \<and> first_free_page_no (file_hdr' fh2) = page_no (get_page_id fh2 ph)
                        then fh2\<lparr>file_hdr' := (file_hdr' fh2)
                                  \<lparr>first_free_page_no :=
                                     rd_int32 d3 (page_hdr ph + OFFSET_NEXT_FREE_PAGE_NO)\<rparr>\<rparr>
                        else fh2)
                 in (Inr new_rid, unpin_in fh3 (get_page_id fh3 ph) True))))"

definition delete_record ::
  "nat \<Rightarrow> RmFileHandle \<Rightarrow> Rid \<Rightarrow> (error + unit) \<times> RmFileHandle" where
  "delete_record PAGE_SIZE fh rid =
     (case fetch_page_handle PAGE_SIZE fh (rid_page_no rid) of
        (Inl e, fh1) \<Rightarrow> (Inl e, fh1)
      | (Inr ph, fh1) \<Rightarrow>
          if \<not> Bitmap_is_set (page_data fh1 ph) (bitmap ph) (slot_no rid)
          then (Inl RecordNotExist, unpin_in fh1 (get_page_id fh1 ph) False)
          else
            (let d1 = Bitmap_reset (page_data fh1 ph) (bitmap ph) (slot_no rid);
                 d2 = wr_int32 d1 (page_hdr ph + OFFSET_NUM_RECORDS)
                        (rd_int32 d1 (page_hdr ph + OFFSET_NUM_RECORDS) - 1);
                 fh2 = set_page_data fh1 ph d2;
                 was_full = (rd_int32 d2 (page_hdr ph + OFFSET_NUM_RECORDS) + 1
                               = num_records_per_page (file_hdr' fh2))
             in if was_full then (Inr (), release_page_handle fh2 ph)
                else (Inr (), unpin_in fh2 (get_page_id fh2 ph) True)))"

definition update_record ::
  "nat \<Rightarrow> RmFileHandle \<Rightarrow> Rid \<Rightarrow> byte list \<Rightarrow> (error + unit) \<times> RmFileHandle" where
  "update_record PAGE_SIZE fh rid buf =
     (case fetch_page_handle PAGE_SIZE fh (rid_page_no rid) of
        (Inl e, fh1) \<Rightarrow> (Inl e, fh1)
      | (Inr ph, fh1) \<Rightarrow>
          if \<not> Bitmap_is_set (page_data fh1 ph) (bitmap ph) (slot_no rid)
          then (Inl RecordNotExist, unpin_in fh1 (get_page_id fh1 ph) False)
          else
            (let d1 = write_bytes (page_data fh1 ph) (get_slot (file_hdr' fh1) ph (slot_no rid))
                        (take (nat (record_size (file_hdr' fh1))) buf);
                 fh2 = set_page_data fh1 ph d1
             in (Inr (), unpin_in fh2 (get_page_id fh2 ph) True)))"

section \<open>RmScan (record/rm\_scan.cpp)\<close>

text \<open>
  The scan holds its cursor \<open>rid'\<close> and a pointer to the file handle; the handle is passed
  to every operation and returned, because fetching a page changes its buffer pool.
\<close>

record RmScan =
  rid' :: Rid

text \<open>The inner loop of \<open>next\<close>: whether a set bit was found, and the slot it stopped at.\<close>

function scan_slots :: "byte list \<Rightarrow> nat \<Rightarrow> int \<Rightarrow> int \<Rightarrow> bool \<times> int" where
  "scan_slots buf bm slot records_per_page =
     (if slot < records_per_page
      then (if Bitmap_is_set buf bm slot then (True, slot)
            else scan_slots buf bm (slot + 1) records_per_page)
      else (False, slot))"
  by pat_completeness auto
termination
  by (relation "measure (\<lambda>(buf, bm, slot, records_per_page). nat (records_per_page - slot))") auto

text \<open>The outer loop of \<open>next\<close>. No branch of it unpins the page it fetched.\<close>

function scan_pages :: "nat \<Rightarrow> RmFileHandle \<Rightarrow> Rid \<Rightarrow> (error + unit) \<times> RmFileHandle \<times> Rid" where
  "scan_pages PAGE_SIZE fh r =
     (if rid_page_no r < num_pages (file_hdr' fh)
      then
        (case fetch_page_handle PAGE_SIZE fh (rid_page_no r) of
           (Inl e, fh1) \<Rightarrow> (Inl e, fh1, r)
         | (Inr ph, fh1) \<Rightarrow>
             (case scan_slots (page_data fh1 ph) (bitmap ph) (slot_no r)
                     (num_records_per_page (file_hdr' fh1)) of
                (True, slot) \<Rightarrow> (Inr (), fh1, r\<lparr>slot_no := slot\<rparr>)
              | (False, slot) \<Rightarrow>
                  scan_pages PAGE_SIZE fh1 \<lparr>rid_page_no = rid_page_no r + 1, slot_no = 0\<rparr>))
      else (Inr (), fh, \<lparr>rid_page_no = - 1, slot_no = - 1\<rparr>))"
  by pat_completeness auto
termination
proof (relation "measure (\<lambda>(PAGE_SIZE, fh, r). nat (num_pages (file_hdr' fh) - rid_page_no r))")
  show "wf (measure (\<lambda>(PAGE_SIZE, fh, r). nat (num_pages (file_hdr' fh) - rid_page_no r)))"
    by simp
next
  fix PAGE_SIZE :: nat and fh fh1 :: RmFileHandle and r :: Rid and x ph y slot
  assume lt: "rid_page_no r < num_pages (file_hdr' fh)"
    and f: "(x, fh1) = fetch_page_handle PAGE_SIZE fh (rid_page_no r)"
  have "file_hdr' fh1 = file_hdr' fh"
    using f by (auto simp: fetch_page_handle_def split: prod.splits sum.splits option.splits)
  then show "((PAGE_SIZE, fh1, \<lparr>rid_page_no = rid_page_no r + 1, slot_no = 0\<rparr>), PAGE_SIZE, fh, r)
        \<in> measure (\<lambda>(PAGE_SIZE, fh, r). nat (num_pages (file_hdr' fh) - rid_page_no r))"
    using lt by simp
qed

definition RmScan_next :: "nat \<Rightarrow> RmFileHandle \<Rightarrow> RmScan \<Rightarrow> (error + unit) \<times> RmFileHandle \<times> RmScan" where
  "RmScan_next PAGE_SIZE fh sc =
     (if num_pages (file_hdr' fh) \<le> 1
      then (Inr (), fh, sc\<lparr>rid' := (rid' sc)\<lparr>rid_page_no := - 1\<rparr>\<rparr>)
      else
        (let r1 = (if rid_page_no (rid' sc) = 0 \<and> slot_no (rid' sc) = - 1
                   then \<lparr>rid_page_no = 1, slot_no = - 1\<rparr> else rid' sc);
             r2 = r1\<lparr>slot_no := slot_no r1 + 1\<rparr>
         in case scan_pages PAGE_SIZE fh r2 of
              (res, fh1, r3) \<Rightarrow> (res, fh1, sc\<lparr>rid' := r3\<rparr>)))"

definition RmScan_new :: "nat \<Rightarrow> RmFileHandle \<Rightarrow> (error + unit) \<times> RmFileHandle \<times> RmScan" where
  "RmScan_new PAGE_SIZE fh =
     RmScan_next PAGE_SIZE fh \<lparr>rid' = \<lparr>rid_page_no = 0, slot_no = - 1\<rparr>\<rparr>"

definition RmScan_is_end :: "RmScan \<Rightarrow> bool" where
  "RmScan_is_end sc = (rid_page_no (rid' sc) = - 1)"

definition RmScan_rid :: "RmScan \<Rightarrow> error + Rid" where
  "RmScan_rid sc = (if RmScan_is_end sc then Inl ScanEnded else Inr (rid' sc))"

section \<open>Invariants and test drivers\<close>

text \<open>A value that fits an \<open>int32\<close> field.\<close>

definition is_int32 :: "int \<Rightarrow> bool" where
  "is_int32 v = (- 2147483648 \<le> v \<and> v < 2147483648)"

text \<open>
  The invariant of the buffer pool: a cached page lies in a frame of the array that
  carries its id and is not free; the free list and the replacer name frames of the
  array, without repetition, and no frame twice between them; the replacer's index is
  the set of its list; an evictable frame has pin count 0; every frame holds
  \<open>PAGE_SIZE\<close> bytes and no pin count is negative. \<open>frame_detached\<close> is a frame that
  \<open>find_victim_page\<close> has handed out: neither cached, nor free, nor evictable.
\<close>

definition pool_inv :: "nat \<Rightarrow> BufferPoolManager \<Rightarrow> bool" where
  "pool_inv PAGE_SIZE b =
     ((\<forall>pid f. page_table' b pid = Some f \<longrightarrow>
          f < length (pages' b) \<and> id' (pages' b ! f) = pid \<and> f \<notin> set (free_list' b)) \<and>
      (\<forall>f \<in> set (free_list' b). f < length (pages' b)) \<and>
      distinct (free_list' b) \<and>
      LRUhash' (replacer' b) = set (LRUlist' (replacer' b)) \<and>
      distinct (LRUlist' (replacer' b)) \<and>
      (\<forall>f \<in> set (LRUlist' (replacer' b)).
          f < length (pages' b) \<and> pin_count' (pages' b ! f) = 0 \<and> f \<notin> set (free_list' b)) \<and>
      (\<forall>i < length (pages' b).
          length (data' (pages' b ! i)) = PAGE_SIZE \<and> 0 \<le> pin_count' (pages' b ! i)))"

definition frame_detached :: "BufferPoolManager \<Rightarrow> nat \<Rightarrow> bool" where
  "frame_detached b f =
     (f < length (pages' b) \<and> (\<forall>pid. page_table' b pid \<noteq> Some f) \<and>
      f \<notin> set (free_list' b) \<and> f \<notin> set (LRUlist' (replacer' b)))"


text \<open>
  Fetching a list of pages one after the other, unpinning a list of pages one after the
  other (page \<open>p\<close> with dirty flag \<open>ds p\<close>), a page whose read from the disk succeeds,
  the pools that calls of the public methods produce from an empty pool of \<open>pool_size\<close>
  frames, and the pool after the pages \<open>ps\<close> were fetched into an empty pool in this
  order and the first \<open>j\<close> of them unpinned in this order.
\<close>

fun fetch_all :: "nat \<Rightarrow> BufferPoolManager \<Rightarrow> PageId list \<Rightarrow> BufferPoolManager" where
  "fetch_all PAGE_SIZE b [] = b"
| "fetch_all PAGE_SIZE b (p # ps) = fetch_all PAGE_SIZE (snd (fetch_page PAGE_SIZE b p)) ps"

fun unpin_all :: "BufferPoolManager \<Rightarrow> PageId list \<Rightarrow> (PageId \<Rightarrow> bool) \<Rightarrow> BufferPoolManager" where
  "unpin_all b [] ds = b"
| "unpin_all b (p # ps) ds = unpin_all (snd (unpin_page b p (ds p))) ps ds"

definition readable :: "nat \<Rightarrow> DiskManager \<Rightarrow> PageId \<Rightarrow> bool" where
  "readable PAGE_SIZE dm pid =
     (fst (read_page PAGE_SIZE dm (fd pid) (page_no pid) [] PAGE_SIZE) = Inr ())"

inductive reachable :: "nat \<Rightarrow> nat \<Rightarrow> DiskManager \<Rightarrow> BufferPoolManager \<Rightarrow> bool"
  for PAGE_SIZE :: nat and pool_size :: nat and dm :: DiskManager where
  reach_new: "reachable PAGE_SIZE pool_size dm (BufferPoolManager_new PAGE_SIZE pool_size dm)"
| reach_fetch_page: "reachable PAGE_SIZE pool_size dm b \<Longrightarrow>
     reachable PAGE_SIZE pool_size dm (snd (fetch_page PAGE_SIZE b pid))"
| reach_new_page: "reachable PAGE_SIZE pool_size dm b \<Longrightarrow>
     reachable PAGE_SIZE pool_size dm (snd (new_page PAGE_SIZE b pid))"
| reach_unpin_page: "reachable PAGE_SIZE pool_size dm b \<Longrightarrow>
     reachable PAGE_SIZE pool_size dm (snd (unpin_page b pid is_dirty))"
| reach_delete_page: "reachable PAGE_SIZE pool_size dm b \<Longrightarrow>
     reachable PAGE_SIZE pool_size dm (snd (delete_page b pid))"
| reach_flush_page: "reachable PAGE_SIZE pool_size dm b \<Longrightarrow>
     reachable PAGE_SIZE pool_size dm (snd (flush_page PAGE_SIZE b pid))"
| reach_flush_all_pages: "reachable PAGE_SIZE pool_size dm b \<Longrightarrow>
     reachable PAGE_SIZE pool_size dm (snd (flush_all_pages PAGE_SIZE b fd0))"

definition pool_shape ::
  "nat \<Rightarrow> DiskManager \<Rightarrow> PageId list \<Rightarrow> nat \<Rightarrow> BufferPoolManager \<Rightarrow> bool" where
  "pool_shape N dm ps j b =
     (length (pages' b) = N \<and> length ps \<le> N \<and> distinct ps \<and> j \<le> length ps \<and>
      (\<forall>i < length ps. id' (pages' b ! i) = ps ! i \<and>
                         pin_count' (pages' b ! i) = (if i < j then 0 else 1)) \<and>
      (\<forall>i < length ps. page_table' b (ps ! i) = Some i) \<and>
      (\<forall>p. p \<notin> set ps \<longrightarrow> page_table' b p = None) \<and>
      free_list' b = [length ps..<N] \<and>
      LRUlist' (replacer' b) = rev [0..<j] \<and>
      LRUhash' (replacer' b) = {0..<j} \<and>
      (j = 0 \<longrightarrow> disk_manager' b = dm))"

text \<open>
  For the record files: a file header whose page layout (page header, bitmap, slots)
  fits the page, with the bitmap covering every slot; a page handle that refers to the
  cached page \<open>pno\<close> of the file in a pool that satisfies the invariant; the bytes of a
  page of the file when it is cached; and what \<open>insert_record\<close> does to the bytes of the
  page it chose (set the bit, copy the record, count it).
\<close>

definition hdr_fits :: "nat \<Rightarrow> RmFileHdr \<Rightarrow> bool" where
  "hdr_fits PAGE_SIZE hdr =
     (0 \<le> record_size hdr \<and> 0 \<le> bitmap_size hdr \<and>
      num_records_per_page hdr \<le> 8 * bitmap_size hdr \<and>
      sizeof_RmPageHdr + nat (bitmap_size hdr) +
        nat (num_records_per_page hdr * record_size hdr) \<le> PAGE_SIZE)"

definition handle_on :: "nat \<Rightarrow> RmFileHandle \<Rightarrow> RmPageHandle \<Rightarrow> int \<Rightarrow> bool" where
  "handle_on PAGE_SIZE fh ph pno =
     (page_hdr ph = 0 \<and> bitmap ph = sizeof_RmPageHdr \<and>
      pool_inv PAGE_SIZE (buffer_pool_manager' fh) \<and>
      page_table' (buffer_pool_manager' fh) \<lparr>fd = fd' fh, page_no = pno\<rparr> = Some (page ph))"

definition cached_page :: "RmFileHandle \<Rightarrow> int \<Rightarrow> byte list option" where
  "cached_page fh pno =
     (case page_table' (buffer_pool_manager' fh) \<lparr>fd = fd' fh, page_no = pno\<rparr> of
        None \<Rightarrow> None
      | Some f \<Rightarrow> Some (data' (pages' (buffer_pool_manager' fh) ! f)))"

definition page_insert :: "RmFileHdr \<Rightarrow> byte list \<Rightarrow> int \<Rightarrow> byte list \<Rightarrow> byte list" where
  "page_insert hdr d slot buf =
     (let d1 = Bitmap_set d sizeof_RmPageHdr slot;
          d2 = write_bytes d1 (sizeof_RmPageHdr + nat (bitmap_size hdr) + nat (slot * record_size hdr))
                 (take (nat (record_size hdr)) buf)
      in wr_int32 d2 OFFSET_NUM_RECORDS (rd_int32 d2 OFFSET_NUM_RECORDS + 1))"

text \<open>
  For the record that \<open>insert_record\<close> stored. No descriptor shares its file with another
  (\<open>fds_distinct\<close>); \<open>disk_page\<close> is the page as the file on the disk holds it, when the
  file reaches that far; \<open>on_disk P\<close> says that this page satisfies \<open>P\<close>. A pool keeps
  \<open>P\<close> for a page (\<open>page_kept\<close>) when it satisfies its invariant, every frame that carries
  the page satisfies \<open>P\<close>, and the disk does so as soon as a frame that carries the page is
  clean or the page table has no entry for the page. \<open>rec_ok hdr slot buf\<close> is the property
  of the bytes of a page that \<open>get_record\<close> reads: the bit of the slot is set and the slot
  holds \<open>buf\<close>. \<open>record_kept\<close> is a file handle of the same file, with the same page layout,
  whose pool keeps \<open>rec_ok\<close> for the page of a Rid.
\<close>

definition fds_distinct :: "DiskManager \<Rightarrow> bool" where
  "fds_distinct dm =
     (\<forall>fd1 fd2 p. map_of (os_fds dm) fd1 = Some p \<and> map_of (os_fds dm) fd2 = Some p \<longrightarrow> fd1 = fd2)"

definition disk_page :: "nat \<Rightarrow> DiskManager \<Rightarrow> PageId \<Rightarrow> byte list option" where
  "disk_page PAGE_SIZE dm pid =
     (case os_contents dm (fd pid) of
        None \<Rightarrow> None
      | Some c \<Rightarrow>
          if 0 \<le> page_no pid \<and> nat (page_no pid) * PAGE_SIZE + PAGE_SIZE \<le> length c
          then Some (take PAGE_SIZE (drop (nat (page_no pid) * PAGE_SIZE) c))
          else None)"

definition on_disk :: "nat \<Rightarrow> (byte list \<Rightarrow> bool) \<Rightarrow> DiskManager \<Rightarrow> PageId \<Rightarrow> bool" where
  "on_disk PAGE_SIZE P dm pid = (\<exists>d. disk_page PAGE_SIZE dm pid = Some d \<and> P d)"




text \<open>
  The histories that leave a Rid alone. \<open>other_rid\<close> is a Rid of another page, or of
  another slot of the same page that the page has. \<open>page_unshared\<close> is the state of the
  pool \<open>insert_record\<close> starts from: a frame that carries page \<open>pno\<close> of the file is the
  frame the page table gives for it, and there is no such frame when the free list of the
  file is empty, so that the page is yet to be allocated. \<open>untouched rid fh fh2\<close>: the
  state \<open>fh2\<close> comes from \<open>fh\<close> by calls of \<open>get_record\<close>, of \<open>insert_record\<close> when it does
  not allocate the page number of \<open>rid\<close> a second time, of \<open>update_record\<close> and
  \<open>delete_record\<close> on other Rids, by constructing and advancing scans, and by calls of
  \<open>fetch_page\<close>, \<open>unpin_page\<close>, \<open>flush_page\<close> and \<open>flush_all_pages\<close> that other users of
  the pool make.
\<close>

definition other_rid :: "RmFileHdr \<Rightarrow> Rid \<Rightarrow> Rid \<Rightarrow> bool" where
  "other_rid hdr rid r =
     (rid_page_no r \<noteq> rid_page_no rid \<or>
      (slot_no r \<noteq> slot_no rid \<and> 0 \<le> slot_no r \<and> slot_no r < num_records_per_page hdr))"


inductive untouched :: "nat \<Rightarrow> Rid \<Rightarrow> RmFileHandle \<Rightarrow> RmFileHandle \<Rightarrow> bool"
  for PAGE_SIZE :: nat and rid :: Rid and fh :: RmFileHandle where
  ut_start: "untouched PAGE_SIZE rid fh fh"
| ut_get_record: "untouched PAGE_SIZE rid fh fh1 \<Longrightarrow>
     untouched PAGE_SIZE rid fh (snd (get_record PAGE_SIZE fh1 r))"
| ut_insert_record: "untouched PAGE_SIZE rid fh fh1 \<Longrightarrow>
     first_free_page_no (file_hdr' fh1) \<noteq> RM_NO_FREE_PAGE \<or>
     fd2pageno' (disk_manager' (buffer_pool_manager' fh1)) (fd' fh1) \<noteq> rid_page_no rid \<Longrightarrow>
     untouched PAGE_SIZE rid fh (snd (insert_record PAGE_SIZE fh1 buf))"
| ut_update_record: "untouched PAGE_SIZE rid fh fh1 \<Longrightarrow> other_rid (file_hdr' fh1) rid r \<Longrightarrow>
     untouched PAGE_SIZE rid fh (snd (update_record PAGE_SIZE fh1 r buf))"
| ut_delete_record: "untouched PAGE_SIZE rid fh fh1 \<Longrightarrow> other_rid (file_hdr' fh1) rid r \<Longrightarrow>
     untouched PAGE_SIZE rid fh (snd (delete_record PAGE_SIZE fh1 r))"
| ut_RmScan_new: "untouched PAGE_SIZE rid fh fh1 \<Longrightarrow>
     untouched PAGE_SIZE rid fh (fst (snd (RmScan_new PAGE_SIZE fh1)))"
| ut_RmScan_next: "untouched PAGE_SIZE rid fh fh1 \<Longrightarrow>
     untouched PAGE_SIZE rid fh (fst (snd (RmScan_next PAGE_SIZE fh1 sc)))"
| ut_fetch_page: "untouched PAGE_SIZE rid fh fh1 \<Longrightarrow>
     untouched PAGE_SIZE rid fh
       (fh1\<lparr>buffer_pool_manager' := snd (fetch_page PAGE_SIZE (buffer_pool_manager' fh1) pid)\<rparr>)"
| ut_unpin_page: "untouched PAGE_SIZE rid fh fh1 \<Longrightarrow>
     untouched PAGE_SIZE rid fh
       (fh1\<lparr>buffer_pool_manager' := snd (unpin_page (buffer_pool_manager' fh1) pid is_dirty)\<rparr>)"
| ut_flush_page: "untouched PAGE_SIZE rid fh fh1 \<Longrightarrow>
     untouched PAGE_SIZE rid fh
       (fh1\<lparr>buffer_pool_manager' := snd (flush_page PAGE_SIZE (buffer_pool_manager' fh1) pid)\<rparr>)"
| ut_flush_all_pages: "untouched PAGE_SIZE rid fh fh1 \<Longrightarrow>
     untouched PAGE_SIZE rid fh
       (fh1\<lparr>buffer_pool_manager' := snd (flush_all_pages PAGE_SIZE (buffer_pool_manager' fh1) fd0)\<rparr>)"

section \<open>A small configuration\<close>

text \<open>
  Pages of 16 bytes, a pool of two frames, and a record file \<open>t\<close> open as descriptor 3
  that holds only its header page: records of 2 bytes, two per page, one byte of bitmap.
  The next page number of the descriptor is 1, since page 0 is the file header.
\<close>

definition ex_disk :: DiskManager where
  "ex_disk =
     \<lparr>os_files = [''t'' \<mapsto> replicate 16 0], os_fds = [(3, ''t'')],
      fd_occupied' = (\<lambda>fd. fd = 3), fd2path' = [3 \<mapsto> ''t''],
      path2fd' = Map.empty, fd2pageno' = (\<lambda>fd. if fd = 3 then 1 else 0)\<rparr>"

definition ex_hdr :: RmFileHdr where
  "ex_hdr =
     \<lparr>record_size = 2, num_pages = 1, num_records_per_page = 2,
      first_free_page_no = RM_NO_FREE_PAGE, bitmap_size = 1\<rparr>"

definition ex_file :: RmFileHandle where
  "ex_file =
     \<lparr>file_hdr' = ex_hdr, fd' = 3, buffer_pool_manager' = BufferPoolManager_new 16 2 ex_disk\<rparr>"

text \<open>
  A pool of two frames on that file with no frame free: page 1, holding one record,
  dirty, unpinned and evictable, in frame 0; page 2, pinned, in frame 1. Pages 1 and 2
  were allocated, so the next page number of the descriptor is 3.
\<close>

definition ex_disk_used :: DiskManager where
  "ex_disk_used = ex_disk\<lparr>fd2pageno' := (\<lambda>fd. if fd = 3 then 3 else 0)\<rparr>"

definition ex_pool :: BufferPoolManager where
  "ex_pool =
     \<lparr>pages' =
        [\<lparr>id' = \<lparr>fd = 3, page_no = 1\<rparr>,
          data' = [255, 255, 255, 255, 1, 0, 0, 0, 1, 1, 2, 0, 0, 0, 0, 0],
          is_dirty' = True, pin_count' = 0\<rparr>,
         \<lparr>id' = \<lparr>fd = 3, page_no = 2\<rparr>,
          data' = [0, 0, 0, 0, 0, 0, 0, 0, 0, 0, 0, 0, 0, 0, 0, 0],
          is_dirty' = False, pin_count' = 1\<rparr>],
      page_table' = [\<lparr>fd = 3, page_no = 1\<rparr> \<mapsto> 0, \<lparr>fd = 3, page_no = 2\<rparr> \<mapsto> 1],
      free_list' = [],
      replacer' = \<lparr>LRUlist' = [0], LRUhash' = {0}, max_size' = 2\<rparr>,
      disk_manager' = ex_disk_used\<rparr>"

text \<open>The same file system with no descriptor open and a disk manager just constructed.\<close>

definition ex_closed_disk :: DiskManager where
  "ex_closed_disk = DiskManager_new [''t'' \<mapsto> replicate 16 0] []"

text \<open>
  Two pages fetched into an empty pool of two frames and unpinned in the same order, the
  first one dirty.
\<close>

definition ex_flags :: "PageId \<Rightarrow> bool" where
  "ex_flags p = (page_no p = 1)"

definition ex_pool_cycled :: BufferPoolManager where
  "ex_pool_cycled =
     unpin_all (fetch_all 16 (BufferPoolManager_new 16 2 ex_disk)
                  [\<lparr>fd = 3, page_no = 1\<rparr>, \<lparr>fd = 3, page_no = 2\<rparr>])
       [\<lparr>fd = 3, page_no = 1\<rparr>, \<lparr>fd = 3, page_no = 2\<rparr>] ex_flags"

text \<open>
  The file after one record was inserted, a scan constructed on it, and that scan
  advanced once more, to its end.
\<close>

definition ex_file_one :: RmFileHandle where
  "ex_file_one = snd (insert_record 16 ex_file [1, 2])"

definition ex_scan_start :: "(error + unit) \<times> RmFileHandle \<times> RmScan" where
  "ex_scan_start = RmScan_new 16 ex_file_one"

definition ex_scan_done :: "(error + unit) \<times> RmFileHandle \<times> RmScan" where
  "ex_scan_done = RmScan_next 16 (fst (snd ex_scan_start)) (snd (snd ex_scan_start))"

text \<open>
  The same file with one record per page; after one record was inserted, which fills
  page 1; and after that record was deleted again.
\<close>

definition ex_file_unit :: RmFileHandle where
  "ex_file_unit = ex_file\<lparr>file_hdr' := ex_hdr\<lparr>num_records_per_page := 1\<rparr>\<rparr>"

definition ex_unit_full :: RmFileHandle where
  "ex_unit_full = snd (insert_record 16 ex_file_unit [1, 2])"

definition ex_unit_freed :: RmFileHandle where
  "ex_unit_freed = snd (delete_record 16 ex_unit_full \<lparr>rid_page_no = 1, slot_no = 0\<rparr>)"











section \<open>Bytes, integers and bitmaps in a page\<close>

lemma length_write_bytes [simp]: "length (write_bytes buf off bs) = length buf"
  by (simp add: write_bytes_def)

lemma nth_write_bytes:
  "off + length bs \<le> length buf \<Longrightarrow> i < length buf \<Longrightarrow>
   write_bytes buf off bs ! i = (if off \<le> i \<and> i < off + length bs then bs ! (i - off) else buf ! i)"
  by (auto simp: write_bytes_def nth_append)

lemma nth_write_bytes_outside:
  "i < off \<or> off + length bs \<le> i \<Longrightarrow> write_bytes buf off bs ! i = buf ! i"
  by (auto simp: write_bytes_def nth_append)



lemma word32_of_bytes:
  "(ucast (ucast w :: byte) OR push_bit 8 (ucast (ucast (drop_bit 8 w) :: byte))
      OR push_bit 16 (ucast (ucast (drop_bit 16 w) :: byte))
      OR push_bit 24 (ucast (ucast (drop_bit 24 w) :: byte))) = (w :: 32 word)"
proof (rule bit_word_eqI)
  fix n assume n: "n < LENGTH(32)"
  consider "n < 8" | "8 \<le> n" "n < 16" | "16 \<le> n" "n < 24" | "24 \<le> n" "n < 32"
    using n by fastforce
  then show "bit (ucast (ucast w :: byte) OR push_bit 8 (ucast (ucast (drop_bit 8 w) :: byte))
      OR push_bit 16 (ucast (ucast (drop_bit 16 w) :: byte))
      OR push_bit 24 (ucast (ucast (drop_bit 24 w) :: byte)) :: 32 word) n = bit w n"
    by cases (auto simp: bit_simps)
qed

lemma wrap32_int32: "is_int32 v \<Longrightarrow> wrap32 v = v"
  by (simp add: wrap32_def is_int32_def sint_sbintrunc' signed_take_bit_int_eq_self)

lemma wrap32_succ_neq: "wrap32 (v + 1) \<noteq> v"
proof
  assume "wrap32 (v + 1) = v"
  then have "(word_of_int (wrap32 (v + 1)) :: 32 word) = word_of_int v" by simp
  then have "(word_of_int (v + 1) :: 32 word) = word_of_int v" by (simp add: wrap32_def)
  then have "(word_of_int v + 1 :: 32 word) = word_of_int v" by simp
  then show False by simp
qed

lemma length_enc_int32 [simp]: "length (enc_int32 v) = 4"
  by (simp add: enc_int32_def Let_def)

lemma length_wr_int32 [simp]: "length (wr_int32 buf off v) = length buf"
  by (simp add: wr_int32_def)

lemma rd_wr_int32_same:
  assumes "off + 4 \<le> length buf"
  shows "rd_int32 (wr_int32 buf off v) off = sint (word_of_int v :: 32 word)"
proof -
  have n: "\<And>k. k < 4 \<Longrightarrow> wr_int32 buf off v ! (off + k) = enc_int32 v ! k"
    using assms by (simp add: wr_int32_def nth_write_bytes)
  have "wr_int32 buf off v ! off = enc_int32 v ! 0" using n[of 0] by simp
  moreover have "wr_int32 buf off v ! (off + 1) = enc_int32 v ! 1" using n[of 1] by simp
  moreover have "wr_int32 buf off v ! (off + 2) = enc_int32 v ! 2" using n[of 2] by simp
  moreover have "wr_int32 buf off v ! (off + 3) = enc_int32 v ! 3" using n[of 3] by simp
  ultimately show ?thesis
    by (simp add: rd_int32_def dec_int32_def enc_int32_def Let_def word32_of_bytes)
qed

lemma rd_wr_int32_same_int32:
  "off + 4 \<le> length buf \<Longrightarrow> is_int32 v \<Longrightarrow> rd_int32 (wr_int32 buf off v) off = v"
  by (simp add: rd_wr_int32_same is_int32_def sint_sbintrunc' signed_take_bit_int_eq_self)

lemma nth_wr_int32_outside:
  "i < off \<or> off + 4 \<le> i \<Longrightarrow> wr_int32 buf off v ! i = buf ! i"
  by (simp add: wr_int32_def nth_write_bytes_outside)

lemma rd_int32_cong:
  "a ! off = b ! off \<Longrightarrow> a ! (off + 1) = b ! (off + 1) \<Longrightarrow> a ! (off + 2) = b ! (off + 2) \<Longrightarrow>
   a ! (off + 3) = b ! (off + 3) \<Longrightarrow> rd_int32 a off = rd_int32 b off"
  by (simp add: rd_int32_def)

lemma rd_int32_wr_int32_other:
  "off' + 4 \<le> off \<or> off + 4 \<le> off' \<Longrightarrow> rd_int32 (wr_int32 buf off v) off' = rd_int32 buf off'"
  by (rule rd_int32_cong) (auto simp: nth_wr_int32_outside)

subsection \<open>Bitmap\<close>

lemma length_Bitmap_set [simp]: "length (Bitmap_set buf bm pos) = length buf"
  by (simp add: Bitmap_set_def)

lemma length_Bitmap_reset [simp]: "length (Bitmap_reset buf bm pos) = length buf"
  by (simp add: Bitmap_reset_def)

lemma length_Bitmap_init [simp]: "length (Bitmap_init buf bm sz) = length buf"
  by (simp add: Bitmap_init_def memset0_def)


lemma Bitmap_is_set_reset:
  "bm + nat pos div 8 < length buf \<Longrightarrow> \<not> Bitmap_is_set (Bitmap_reset buf bm pos) bm pos"
  by (simp add: Bitmap_is_set_def Bitmap_reset_def bit_simps)

lemma nth_Bitmap_set_outside:
  "i \<noteq> bm + nat pos div 8 \<Longrightarrow> Bitmap_set buf bm pos ! i = buf ! i"
  by (simp add: Bitmap_set_def)


lemma nth_Bitmap_init_outside:
  "i < bm \<or> bm + nat sz \<le> i \<Longrightarrow> Bitmap_init buf bm sz ! i = buf ! i"
  by (simp add: Bitmap_init_def memset0_def nth_write_bytes_outside)


lemma Bitmap_first_bit_range:
  assumes "Bitmap_first_bit b buf bm max_n = slot" and "slot \<noteq> INT_MAX"
  shows "0 \<le> slot \<and> slot < max_n"
proof -
  from assms obtain i where
    f: "find (\<lambda>i. Bitmap_is_set buf bm i = b) (map int [0..<nat max_n]) = Some i" and "i = slot"
    by (auto simp: Bitmap_first_bit_def split: option.splits)
  then have "slot \<in> set (map int [0..<nat max_n])"
    by (auto simp: find_Some_iff in_set_conv_nth)
  then show ?thesis by auto
qed

section \<open>Reading and writing pages\<close>

lemma os_contents_os_write:
  "os_contents dm fdx = Some c \<Longrightarrow>
   os_contents (os_write dm fdx pos bs) fdx = Some (file_write c pos bs)"
  by (auto simp: os_contents_def os_write_def split: option.splits)

lemma write_page_Inr:
  assumes "write_page PS dm fdx p wbuf n = Inr dm1"
  obtains c where "os_contents dm fdx = Some c" "0 \<le> p * int PS" "n \<le> length wbuf"
    "dm1 = os_write dm fdx (nat (p * int PS)) (take n wbuf)"
  using assms
  by (auto simp: write_page_def os_lseek_def Let_def split: option.splits if_splits)

lemma file_write_read:
  "bs \<noteq> [] \<Longrightarrow> take (length bs) (drop pos (file_write c pos bs)) = bs"
  by (simp add: file_write_def)

lemma file_write_length:
  "bs \<noteq> [] \<Longrightarrow> pos + length bs \<le> length (file_write c pos bs)"
  by (simp add: file_write_def)

lemma write_then_read:
  assumes w: "write_page PS dm fdx p wbuf n = Inr dm1" and n: "n \<le> length buf"
  shows "read_page PS dm1 fdx p buf n = (Inr (), take n wbuf @ drop n buf)"
proof -
  from w obtain c where c: "os_contents dm fdx = Some c" and p: "0 \<le> p * int PS"
    and len: "n \<le> length wbuf"
    and dm1: "dm1 = os_write dm fdx (nat (p * int PS)) (take n wbuf)"
    by (rule write_page_Inr)
  let ?pos = "nat (p * int PS)"
  let ?bs = "take n wbuf"
  have c1: "os_contents dm1 fdx = Some (file_write c ?pos ?bs)"
    using c dm1 by (simp add: os_contents_os_write)
  have lbs: "length ?bs = n" using len by simp
  show ?thesis
  proof (cases "n = 0")
    case True
    then show ?thesis
      using c1 p
      by (simp add: read_page_def os_fstat_def os_lseek_def os_read_def memset0_def
          write_bytes_def Let_def)
  next
    case False
    then have ne: "?bs \<noteq> []" using lbs by auto
    have sz: "?pos + n \<le> length (file_write c ?pos ?bs)"
      using file_write_length[OF ne, of ?pos c] lbs by simp
    have rd: "take n (drop ?pos (file_write c ?pos ?bs)) = ?bs"
      using file_write_read[OF ne, of ?pos c] lbs by simp
    have lt: "\<not> int (length (file_write c ?pos ?bs)) \<le> p * int PS"
      using sz False p by linarith
    show ?thesis
      using c1 p lt rd n lbs
      by (simp add: read_page_def os_fstat_def os_lseek_def os_read_def
          write_bytes_def Let_def)
  qed
qed

lemma read_beyond_extent:
  assumes "os_fstat dm fdx = Some sz" and "int sz \<le> p * int PS" and "n \<le> length buf"
  shows "read_page PS dm fdx p buf n = (Inr (), replicate n 0 @ drop n buf)"
  using assms by (simp add: read_page_def memset0_def write_bytes_def Let_def)

text \<open>
  C8. \<open>read_page(fd, page_no, buf, n)\<close> whose offset \<open>page_no * PAGE_SIZE\<close> is at or beyond
  the size of the file succeeds and fills \<open>buf\<close> with \<open>n\<close> zero bytes; and after a
  \<open>write_page\<close> that succeeded, \<open>read_page\<close> at the same descriptor and page number
  succeeds and returns exactly the \<open>n\<close> bytes that were written.
\<close>

theorem read_page_zero_fill_and_round_trip:
  "(os_fstat dm fdx = Some sz \<and> int sz \<le> p * int PAGE_SIZE \<and> n \<le> length buf \<longrightarrow>
      fst (read_page PAGE_SIZE dm fdx p buf n) = Inr () \<and>
      read_bytes (snd (read_page PAGE_SIZE dm fdx p buf n)) 0 n = replicate n 0) \<and>
   (write_page PAGE_SIZE dm fdx p wbuf n = Inr dm1 \<and> n \<le> length buf \<longrightarrow>
      fst (read_page PAGE_SIZE dm1 fdx p buf n) = Inr () \<and>
      read_bytes (snd (read_page PAGE_SIZE dm1 fdx p buf n)) 0 n = take n wbuf \<and>
      length (take n wbuf) = n)"
proof (intro conjI impI)
  assume a: "os_fstat dm fdx = Some sz \<and> int sz \<le> p * int PAGE_SIZE \<and> n \<le> length buf"
  then have r: "read_page PAGE_SIZE dm fdx p buf n = (Inr (), replicate n 0 @ drop n buf)"
    by (simp add: read_beyond_extent)
  show "fst (read_page PAGE_SIZE dm fdx p buf n) = Inr ()" using r by simp
  show "read_bytes (snd (read_page PAGE_SIZE dm fdx p buf n)) 0 n = replicate n 0"
    using r by (simp add: read_bytes_def)
next
  assume a: "write_page PAGE_SIZE dm fdx p wbuf n = Inr dm1 \<and> n \<le> length buf"
  then have r: "read_page PAGE_SIZE dm1 fdx p buf n = (Inr (), take n wbuf @ drop n buf)"
    using write_then_read by blast
  from a have len: "n \<le> length wbuf" by (auto elim: write_page_Inr)
  show "fst (read_page PAGE_SIZE dm1 fdx p buf n) = Inr ()" using r by simp
  show "read_bytes (snd (read_page PAGE_SIZE dm1 fdx p buf n)) 0 n = take n wbuf"
    using r len by (simp add: read_bytes_def)
  show "length (take n wbuf) = n" using len by simp
qed

theorem read_page_zero_fill_and_round_trip_witness:
  "os_fstat ex_disk 3 = Some 16 \<and>
   write_page 16 ex_disk 3 2 [1, 2, 3, 4] 4 = Inr (os_write ex_disk 3 32 [1, 2, 3, 4]) \<and>
   fst (read_page 16 ex_disk 3 2 [9, 9, 9, 9] 4) = Inr () \<and>
   read_bytes (snd (read_page 16 ex_disk 3 2 [9, 9, 9, 9] 4)) 0 4 = [0, 0, 0, 0] \<and>
   fst (read_page 16 (os_write ex_disk 3 32 [1, 2, 3, 4]) 3 2 [9, 9, 9, 9] 4) = Inr () \<and>
   read_bytes (snd (read_page 16 (os_write ex_disk 3 32 [1, 2, 3, 4]) 3 2 [9, 9, 9, 9] 4)) 0 4
     = [1, 2, 3, 4]"
proof -
  have s: "os_fstat ex_disk 3 = Some 16"
    by (simp add: os_fstat_def os_contents_def ex_disk_def)
  have w: "write_page 16 ex_disk 3 2 [1, 2, 3, 4] 4 = Inr (os_write ex_disk 3 32 [1, 2, 3, 4])"
    by (simp add: write_page_def os_lseek_def os_contents_def ex_disk_def)
  have r: "replicate 4 (0::byte) = [0, 0, 0, 0]"
    by (simp add: numeral_eq_Suc)
  show ?thesis
    using read_page_zero_fill_and_round_trip
      [of ex_disk 3 16 2 16 4 "[9, 9, 9, 9]" "[1, 2, 3, 4]" "os_write ex_disk 3 32 [1, 2, 3, 4]"]
      s w r
    by simp
qed


section \<open>Unpinning\<close>

text \<open>
  C6. \<open>unpin_page(page_id, is_dirty)\<close> returns false exactly when the page is not cached or
  its pin count is already 0 (pin counts are never negative), and whenever it returns
  false the whole buffer pool, that is pin counts, dirty flags, page table, replacer,
  free list and disk, is as it was.
\<close>

theorem unpin_page_fails_iff:
  assumes "\<forall>f. page_table' b page_id = Some f \<longrightarrow> 0 \<le> pin_count' (pages' b ! f)"
  shows "((fst (unpin_page b page_id is_dirty) = False) =
            (page_table' b page_id = None \<or>
             (\<exists>f. page_table' b page_id = Some f \<and> pin_count' (pages' b ! f) = 0))) \<and>
         (fst (unpin_page b page_id is_dirty) = False \<longrightarrow>
            snd (unpin_page b page_id is_dirty) = b)"
  using assms by (auto simp: unpin_page_def Let_def split: option.splits)

theorem unpin_page_fails_iff_witness:
  "page_table' ex_pool \<lparr>fd = 3, page_no = 1\<rparr> = Some 0 \<and>
   pin_count' (pages' ex_pool ! 0) = 0 \<and>
   fst (unpin_page ex_pool \<lparr>fd = 3, page_no = 1\<rparr> True) = False \<and>
   snd (unpin_page ex_pool \<lparr>fd = 3, page_no = 1\<rparr> True) = ex_pool"
proof -
  have h: "\<forall>f. page_table' ex_pool \<lparr>fd = 3, page_no = 1\<rparr> = Some f \<longrightarrow>
             0 \<le> pin_count' (pages' ex_pool ! f)"
    by (simp add: ex_pool_def)
  show ?thesis
    using unpin_page_fails_iff [OF h, of True] by (simp add: ex_pool_def)
qed

section \<open>Eviction\<close>

text \<open>
  C5. When the pool evicts a victim (no frame is free and the replacer gives frame \<open>f\<close>):
  if the victim is dirty, its bytes are written to the disk at its own page before
  anything else happens to the frame, so that the disk of a \<open>fetch_page\<close> that misses is
  the disk after that write, from which \<open>read_page\<close> returns those bytes, and when the
  write throws the fetch throws with the frame untouched; if the victim is not dirty the
  disk is left as it was.
\<close>

theorem eviction_writes_dirty_victim_only:
  assumes fl: "free_list' b = []"
    and v: "victim (replacer' b) = (Some f, r)"
    and miss: "page_table' b page_id = None"
  shows "(is_dirty' (pages' b ! f) \<longrightarrow>
            (case write_page PAGE_SIZE (disk_manager' b) (fd (id' (pages' b ! f)))
                    (page_no (id' (pages' b ! f))) (data' (pages' b ! f)) PAGE_SIZE of
               Inl e \<Rightarrow>
                 find_victim_page PAGE_SIZE b = (Inl e, b\<lparr>replacer' := r\<rparr>) \<and>
                 fetch_page PAGE_SIZE b page_id = (Inl e, b\<lparr>replacer' := r\<rparr>)
             | Inr dm \<Rightarrow>
                 fst (find_victim_page PAGE_SIZE b) = Inr (Some f) \<and>
                 disk_manager' (snd (find_victim_page PAGE_SIZE b)) = dm \<and>
                 disk_manager' (snd (fetch_page PAGE_SIZE b page_id)) = dm \<and>
                 read_page PAGE_SIZE dm (fd (id' (pages' b ! f))) (page_no (id' (pages' b ! f)))
                     (replicate PAGE_SIZE 0) PAGE_SIZE
                   = (Inr (), take PAGE_SIZE (data' (pages' b ! f))))) \<and>
         (\<not> is_dirty' (pages' b ! f) \<longrightarrow>
            fst (find_victim_page PAGE_SIZE b) = Inr (Some f) \<and>
            disk_manager' (snd (find_victim_page PAGE_SIZE b)) = disk_manager' b \<and>
            disk_manager' (snd (fetch_page PAGE_SIZE b page_id)) = disk_manager' b)"
proof -
  have rb: "\<And>dm. write_page PAGE_SIZE (disk_manager' b) (fd (id' (pages' b ! f)))
                    (page_no (id' (pages' b ! f))) (data' (pages' b ! f)) PAGE_SIZE = Inr dm \<Longrightarrow>
            read_page PAGE_SIZE dm (fd (id' (pages' b ! f))) (page_no (id' (pages' b ! f)))
                     (replicate PAGE_SIZE 0) PAGE_SIZE
                   = (Inr (), take PAGE_SIZE (data' (pages' b ! f)))"
    using write_then_read[where buf = "replicate PAGE_SIZE 0" and n = PAGE_SIZE] by simp
  show ?thesis
    using fl v miss rb
    by (auto simp: find_victim_page_def fetch_page_def Let_def split: sum.splits prod.splits)
qed

theorem eviction_writes_dirty_victim_only_witness:
  "free_list' ex_pool = [] \<and>
   victim (replacer' ex_pool) = (Some 0, \<lparr>LRUlist' = [], LRUhash' = {}, max_size' = 2\<rparr>) \<and>
   page_table' ex_pool \<lparr>fd = 3, page_no = 5\<rparr> = None \<and>
   is_dirty' (pages' ex_pool ! 0) \<and>
   disk_manager' (snd (fetch_page 16 ex_pool \<lparr>fd = 3, page_no = 5\<rparr>))
     = os_write ex_disk_used 3 16 [255, 255, 255, 255, 1, 0, 0, 0, 1, 1, 2, 0, 0, 0, 0, 0]"
proof -
  have fl: "free_list' ex_pool = []" by (simp add: ex_pool_def)
  have v: "victim (replacer' ex_pool) = (Some 0, \<lparr>LRUlist' = [], LRUhash' = {}, max_size' = 2\<rparr>)"
    by (simp add: ex_pool_def victim_def)
  have m: "page_table' ex_pool \<lparr>fd = 3, page_no = 5\<rparr> = None" by (simp add: ex_pool_def)
  have w: "write_page 16 ex_disk_used 3 1 [255, 255, 255, 255, 1, 0, 0, 0, 1, 1, 2, 0, 0, 0, 0, 0] 16
             = Inr (os_write ex_disk_used 3 16
                      [255, 255, 255, 255, 1, 0, 0, 0, 1, 1, 2, 0, 0, 0, 0, 0])"
    by (simp add: write_page_def os_lseek_def os_contents_def ex_disk_used_def ex_disk_def)
  show ?thesis
    using eviction_writes_dirty_victim_only [OF fl v m, of 16] fl v m w
    by (simp add: ex_pool_def)
qed


section \<open>new\_page\<close>

lemma data_list_update_same:
  "data' p = data' (xs ! i) \<Longrightarrow> data' (xs[i := p] ! i) = data' (xs ! i)"
  by (cases "i < length xs") (simp_all add: list_update_beyond)

lemma find_victim_page_data:
  "find_victim_page PS b = (Inr (Some f), b1) \<Longrightarrow> data' (pages' b1 ! f) = data' (pages' b ! f)"
  by (auto simp: find_victim_page_def victim_def Let_def data_list_update_same
      split: list.splits if_splits sum.splits)

text \<open>
  C9. \<open>new_page\<close> does not initialise the bytes of the frame it returns: the data of the
  frame are what they were before the call, whoever occupied the frame; only the page
  id, the pin count (1) and the dirty flag (false) are set.
\<close>

theorem new_page_keeps_frame_bytes:
  assumes "new_page PAGE_SIZE b page_id = (Inr (Some (f, page_id1)), b1)"
  shows "data' (pages' b1 ! f) = data' (pages' b ! f) \<and>
         (f < length (pages' b) \<longrightarrow>
            id' (pages' b1 ! f) = page_id1 \<and> pin_count' (pages' b1 ! f) = 1 \<and>
            \<not> is_dirty' (pages' b1 ! f))"
proof -
  from assms obtain b0 pno dm where
    fv: "find_victim_page PAGE_SIZE b = (Inr (Some f), b0)"
    and b1: "b1 = b0\<lparr>disk_manager' := dm,
                pages' := (pages' b0)[f := (pages' b0 ! f)\<lparr>id' := page_id\<lparr>page_no := pno\<rparr>,
                                          pin_count' := 1, is_dirty' := False\<rparr>],
                page_table' := (page_table' b0)(page_id\<lparr>page_no := pno\<rparr> \<mapsto> f),
                replacer' := pin (replacer' b0) f\<rparr>"
    and p1: "page_id1 = page_id\<lparr>page_no := pno\<rparr>"
    by (auto simp: new_page_def update_page_def Let_def
        split: prod.splits sum.splits option.splits)
  have len: "length (pages' b0) = length (pages' b)"
    using fv
    by (auto simp: find_victim_page_def victim_def Let_def
        split: list.splits if_splits sum.splits)
  have "data' (pages' b1 ! f) = data' (pages' b0 ! f)"
    unfolding b1 by (simp add: data_list_update_same)
  then show ?thesis
    using find_victim_page_data[OF fv] len b1 p1 by simp
qed

theorem new_page_keeps_frame_bytes_witness:
  "new_page 16 ex_pool \<lparr>fd = 3, page_no = INVALID_PAGE_ID\<rparr>
     = (Inr (Some (0, \<lparr>fd = 3, page_no = 3\<rparr>)),
        snd (new_page 16 ex_pool \<lparr>fd = 3, page_no = INVALID_PAGE_ID\<rparr>)) \<and>
   data' (pages' (snd (new_page 16 ex_pool \<lparr>fd = 3, page_no = INVALID_PAGE_ID\<rparr>)) ! 0)
     = [255, 255, 255, 255, 1, 0, 0, 0, 1, 1, 2, 0, 0, 0, 0, 0]"
proof -
  have n: "fst (new_page 16 ex_pool \<lparr>fd = 3, page_no = INVALID_PAGE_ID\<rparr>)
             = Inr (Some (0, \<lparr>fd = 3, page_no = 3\<rparr>))"
    by code_simp
  then have e: "new_page 16 ex_pool \<lparr>fd = 3, page_no = INVALID_PAGE_ID\<rparr>
     = (Inr (Some (0, \<lparr>fd = 3, page_no = 3\<rparr>)),
        snd (new_page 16 ex_pool \<lparr>fd = 3, page_no = INVALID_PAGE_ID\<rparr>))"
    by (simp add: prod_eq_iff)
  show ?thesis
    using new_page_keeps_frame_bytes [OF e] e by (simp add: ex_pool_def)
qed

section \<open>Descriptors\<close>

lemma open_file_path2fd: "path2fd' (snd (open_file dm path)) = path2fd' dm"
  by (simp add: open_file_def os_close_def Let_def)

lemma close_file_path2fd: "path2fd' (snd (close_file dm fdx)) = path2fd' dm"
  by (simp add: close_file_def os_close_def)

text \<open>
  C4. For a path already opened through the disk manager, \<open>get_file_fd(path)\<close> should
  return the descriptor of that open file without opening it again. The code does
  not: \<open>open_file\<close> never enters the path into \<open>path2fd'\<close>, so after \<open>open_file\<close> returned
  descriptor 0 for \<open>t\<close>, \<open>get_file_fd\<close> of \<open>t\<close> opens the file a second time and returns
  descriptor 1.
\<close>

theorem get_file_fd_opens_again:
  "fst (open_file ex_closed_disk ''t'') = Inr 0 \<and>
   path2fd' (snd (open_file ex_closed_disk ''t'')) ''t'' = None \<and>
   os_fds (snd (open_file ex_closed_disk ''t'')) = [(0, ''t'')] \<and>
   fst (get_file_fd (snd (open_file ex_closed_disk ''t'')) ''t'') = Inr 1 \<and>
   os_fds (snd (get_file_fd (snd (open_file ex_closed_disk ''t'')) ''t'')) = [(1, ''t''), (0, ''t'')]"
  by (simp add: get_file_fd_def open_file_def is_file_def os_lowest_fd_def ex_closed_disk_def
      DiskManager_new_def MAX_FD_def Let_def)

section \<open>The invariant of the buffer pool\<close>

lemma nth_list_update_if:
  "xs[i := x] ! j = (if i = j \<and> i < length xs then x else xs ! j)"
  by (cases "i < length xs") (auto simp: nth_list_update list_update_beyond)

lemma pool_inv_unpin_page:
  assumes "pool_inv PS b"
  shows "pool_inv PS (snd (unpin_page b pid d))"
proof (cases "page_table' b pid")
  case None
  then show ?thesis using assms by (simp add: unpin_page_def)
next
  case (Some f)
  then have f: "f < length (pages' b)" "id' (pages' b ! f) = pid" "f \<notin> set (free_list' b)"
    using assms by (auto simp: pool_inv_def)
  show ?thesis
  proof (cases "pin_count' (pages' b ! f) \<le> 0")
    case True
    then show ?thesis using assms Some by (simp add: unpin_page_def)
  next
    case False
    show ?thesis
      using assms Some False f
      unfolding pool_inv_def unpin_page_def unpin_def Let_def
      by (auto simp: nth_list_update)
  qed
qed


lemma set_butlast_distinct:
  "distinct l \<Longrightarrow> l \<noteq> [] \<Longrightarrow> set (butlast l) = set l - {last l}"
proof -
  assume d: "distinct l" and n: "l \<noteq> []"
  then have e: "l = butlast l @ [last l]" by simp
  have "distinct (butlast l @ [last l])" using d e by simp
  then have "last l \<notin> set (butlast l)" by simp
  moreover have "set l = set (butlast l) \<union> {last l}"
    by (subst e) simp
  ultimately show ?thesis by auto
qed

lemma victim_Some:
  assumes "victim r = (Some f, r1)"
  shows "LRUlist' r \<noteq> [] \<and> f = last (LRUlist' r) \<and> LRUlist' r1 = butlast (LRUlist' r) \<and>
         LRUhash' r1 = LRUhash' r - {f}"
  using assms by (auto simp: victim_def Let_def split: if_splits)

lemma victim_None: "victim r = (None, r1) \<Longrightarrow> r1 = r \<and> LRUlist' r = []"
  by (auto simp: victim_def Let_def split: if_splits)

lemma length_read_page: "length (snd (read_page PS dm fdx p buf n)) = length buf"
  by (simp add: read_page_def memset0_def Let_def split: option.splits)

lemma pool_inv_find_victim_page:
  assumes inv: "pool_inv PS b" and fv: "find_victim_page PS b = (res, b1)"
  shows "pool_inv PS b1 \<and> (\<forall>f. res = Inr (Some f) \<longrightarrow> frame_detached b1 f)"
proof (cases "free_list' b")
  case (Cons f rest)
  then have "res = Inr (Some f)" "b1 = b\<lparr>free_list' := rest\<rparr>"
    using fv by (auto simp: find_victim_page_def)
  then show ?thesis
    using inv Cons unfolding pool_inv_def frame_detached_def by auto
next
  case Nil
  obtain v r where v: "victim (replacer' b) = (v, r)" by (cases "victim (replacer' b)")
  show ?thesis
  proof (cases v)
    case None
    then have "r = replacer' b" using v by (auto dest: victim_None)
    then have "b1 = b" "res = Inr None"
      using fv Nil v None by (auto simp: find_victim_page_def)
    then show ?thesis using inv by simp
  next
    case (Some f)
    from v Some have vs: "LRUlist' (replacer' b) \<noteq> []" "f = last (LRUlist' (replacer' b))"
      "LRUlist' r = butlast (LRUlist' (replacer' b))" "LRUhash' r = LRUhash' (replacer' b) - {f}"
      using victim_Some by blast+
    have dl: "distinct (LRUlist' (replacer' b))" using inv by (simp add: pool_inv_def)
    have sb: "set (LRUlist' r) = set (LRUlist' (replacer' b)) - {f}"
      using set_butlast_distinct[OF dl vs(1)] vs by simp
    have fin: "f \<in> set (LRUlist' (replacer' b))" using vs by simp
    have db: "distinct (LRUlist' r)" using dl vs by (simp add: distinct_butlast)
    let ?b0 = "b\<lparr>replacer' := r\<rparr>"
    have inv0: "pool_inv PS ?b0"
      using inv sb db vs(4) unfolding pool_inv_def by auto
    have flen: "f < length (pages' b)" "f \<notin> set (free_list' b)"
      using inv fin unfolding pool_inv_def by auto
    have notin: "f \<notin> set (LRUlist' r)" using sb by simp
    have only: "\<And>pid. page_table' b pid = Some f \<Longrightarrow> pid = id' (pages' b ! f)"
      using inv unfolding pool_inv_def by auto
    show ?thesis
    proof (cases "is_dirty' (pages' b ! f)")
      case False
      then have r: "res = Inr (Some f)"
        "b1 = ?b0\<lparr>page_table' := (page_table' b)(id' (pages' b ! f) := None)\<rparr>"
        using fv Nil v Some by (auto simp: find_victim_page_def Let_def)
      have "pool_inv PS b1"
        using inv0 unfolding r pool_inv_def by auto
      moreover have "frame_detached b1 f"
        using flen notin only unfolding r frame_detached_def by auto
      ultimately show ?thesis using r by simp
    next
      case True
      show ?thesis
      proof (cases "write_page PS (disk_manager' b) (fd (id' (pages' b ! f)))
                      (page_no (id' (pages' b ! f))) (data' (pages' b ! f)) PS")
        case (Inl e)
        then have "res = Inl e" "b1 = ?b0"
          using fv Nil v Some True by (auto simp: find_victim_page_def Let_def)
        then show ?thesis using inv0 by simp
      next
        case (Inr dm)
        then have r: "res = Inr (Some f)"
          "b1 = ?b0\<lparr>disk_manager' := dm,
                     pages' := (pages' b)[f := (pages' b ! f)\<lparr>is_dirty' := False\<rparr>],
                     page_table' := (page_table' b)(id' (pages' b ! f) := None)\<rparr>"
          using fv Nil v Some True by (auto simp: find_victim_page_def Let_def)
        have "pool_inv PS b1"
          using inv0 flen unfolding r pool_inv_def by (auto simp: nth_list_update_if)
        moreover have "frame_detached b1 f"
          using flen notin only unfolding r frame_detached_def by auto
        ultimately show ?thesis using r by simp
      qed
    qed
  qed
qed

lemma pin_detached:
  "LRUhash' r = set (LRUlist' r) \<Longrightarrow> f \<notin> set (LRUlist' r) \<Longrightarrow> pin r f = r"
  by (simp add: pin_def)

lemma pool_inv_attach:
  assumes inv: "pool_inv PS b" and det: "frame_detached b f"
    and len: "length (data' p) = PS" and pc: "0 \<le> pin_count' p" and idp: "id' p = pid"
  shows "pool_inv PS (b\<lparr>pages' := (pages' b)[f := p],
                        page_table' := (page_table' b)(pid \<mapsto> f)\<rparr>)"
  unfolding pool_inv_def
proof (intro conjI allI impI ballI, goal_cases)
  case (1 k g)
  then show ?case using inv det idp unfolding pool_inv_def frame_detached_def
    by (auto simp: nth_list_update_if split: if_splits)
next
  case (2 k g)
  then show ?case using inv det idp unfolding pool_inv_def frame_detached_def
    by (auto simp: nth_list_update_if split: if_splits)
next
  case (3 k g)
  then show ?case using inv det idp unfolding pool_inv_def frame_detached_def
    by (auto simp: nth_list_update_if split: if_splits)
next
  case (4 g)
  then show ?case using inv unfolding pool_inv_def by simp
next
  case 5
  then show ?case using inv unfolding pool_inv_def by simp
next
  case 6
  then show ?case using inv unfolding pool_inv_def by simp
next
  case 7
  then show ?case using inv unfolding pool_inv_def by simp
next
  case (8 g)
  then show ?case using inv unfolding pool_inv_def by simp
next
  case (9 g)
  then show ?case using inv det unfolding pool_inv_def frame_detached_def
    by (auto simp: nth_list_update_if)
next
  case (10 g)
  then show ?case using inv unfolding pool_inv_def by simp
next
  case (11 i)
  then show ?case using inv len unfolding pool_inv_def by (auto simp: nth_list_update_if)
next
  case (12 i)
  then show ?case using inv pc unfolding pool_inv_def by (auto simp: nth_list_update_if)
qed


lemma pool_inv_replace_page:
  assumes inv: "pool_inv PS b" and det: "frame_detached b f"
    and len: "length (data' p) = PS" and pc: "0 \<le> pin_count' p"
  shows "pool_inv PS (b\<lparr>pages' := (pages' b)[f := p]\<rparr>)"
  unfolding pool_inv_def
proof (intro conjI allI impI ballI, goal_cases)
  case (1 k g)
  then show ?case using inv unfolding pool_inv_def by auto
next
  case (2 k g)
  then show ?case using inv det unfolding pool_inv_def frame_detached_def
    by (auto simp: nth_list_update_if)
next
  case (3 k g)
  then show ?case using inv unfolding pool_inv_def by auto
next
  case (4 g)
  then show ?case using inv unfolding pool_inv_def by simp
next
  case 5
  then show ?case using inv unfolding pool_inv_def by simp
next
  case 6
  then show ?case using inv unfolding pool_inv_def by simp
next
  case 7
  then show ?case using inv unfolding pool_inv_def by simp
next
  case (8 g)
  then show ?case using inv unfolding pool_inv_def by simp
next
  case (9 g)
  then show ?case using inv det unfolding pool_inv_def frame_detached_def
    by (auto simp: nth_list_update_if)
next
  case (10 g)
  then show ?case using inv unfolding pool_inv_def by simp
next
  case (11 i)
  then show ?case using inv len unfolding pool_inv_def by (auto simp: nth_list_update_if)
next
  case (12 i)
  then show ?case using inv pc unfolding pool_inv_def by (auto simp: nth_list_update_if)
qed

lemma pool_inv_disk [simp]: "pool_inv PS (b\<lparr>disk_manager' := dm\<rparr>) = pool_inv PS b"
  by (simp add: pool_inv_def)

lemma frame_detached_disk [simp]:
  "frame_detached (b\<lparr>disk_manager' := dm\<rparr>) f = frame_detached b f"
  by (simp add: frame_detached_def)

lemma pool_inv_pin:
  assumes inv: "pool_inv PS b" and f: "f < length (pages' b)"
    and len: "length (data' p) = PS" and pc: "0 \<le> pin_count' p"
    and idp: "id' p = id' (pages' b ! f)"
  shows "pool_inv PS (b\<lparr>pages' := (pages' b)[f := p], replacer' := pin (replacer' b) f\<rparr>)"
proof -
  have h: "LRUhash' (replacer' b) = set (LRUlist' (replacer' b))"
    and d: "distinct (LRUlist' (replacer' b))"
    using inv by (auto simp: pool_inv_def)
  have l: "set (LRUlist' (pin (replacer' b) f)) = set (LRUlist' (replacer' b)) - {f}"
    using h d by (auto simp: pin_def)
  have hh: "LRUhash' (pin (replacer' b) f) = set (LRUlist' (pin (replacer' b) f))"
    using h d by (auto simp: pin_def)
  have dd: "distinct (LRUlist' (pin (replacer' b) f))"
    using d by (auto simp: pin_def)
  show ?thesis
    unfolding pool_inv_def
  proof (intro conjI allI impI ballI, goal_cases)
    case (1 k g)
    then show ?case using inv unfolding pool_inv_def by auto
  next
    case (2 k g)
    then show ?case using inv idp unfolding pool_inv_def
      by (auto simp: nth_list_update_if)
  next
    case (3 k g)
    then show ?case using inv unfolding pool_inv_def by auto
  next
    case (4 g)
    then show ?case using inv unfolding pool_inv_def by simp
  next
    case 5
    then show ?case using inv unfolding pool_inv_def by simp
  next
    case 6
    then show ?case using hh by simp
  next
    case 7
    then show ?case using dd by simp
  next
    case (8 g)
    then show ?case using inv l unfolding pool_inv_def by simp
  next
    case (9 g)
    then show ?case using inv l unfolding pool_inv_def
      by (auto simp: nth_list_update_if)
  next
    case (10 g)
    then show ?case using inv l unfolding pool_inv_def by simp
  next
    case (11 i)
    then show ?case using inv len unfolding pool_inv_def by (auto simp: nth_list_update_if)
  next
    case (12 i)
    then show ?case using inv pc unfolding pool_inv_def by (auto simp: nth_list_update_if)
  qed
qed

lemma fetch_page_hit:
  "page_table' b pid = Some f \<Longrightarrow>
   fetch_page PS b pid =
     (Inr (Some f),
      b\<lparr>pages' := (pages' b)[f := (pages' b ! f)\<lparr>pin_count' := pin_count' (pages' b ! f) + 1\<rparr>],
        replacer' := pin (replacer' b) f\<rparr>)"
  by (simp add: fetch_page_def Let_def)

lemma pool_inv_mapped:
  "pool_inv PS b \<Longrightarrow> page_table' b pid = Some f \<Longrightarrow>
   f < length (pages' b) \<and> id' (pages' b ! f) = pid \<and> length (data' (pages' b ! f)) = PS \<and>
   0 \<le> pin_count' (pages' b ! f)"
  by (auto simp: pool_inv_def)

lemma pool_inv_fetch_page:
  assumes inv: "pool_inv PS b" and fp: "fetch_page PS b pid = (res, b1)"
  shows "pool_inv PS b1 \<and>
         (\<forall>f. res = Inr (Some f) \<longrightarrow>
            f < length (pages' b1) \<and> page_table' b1 pid = Some f \<and> id' (pages' b1 ! f) = pid \<and>
            length (data' (pages' b1 ! f)) = PS \<and> 1 \<le> pin_count' (pages' b1 ! f))"
proof (cases "page_table' b pid")
  case (Some f)
  note m = pool_inv_mapped[OF inv Some]
  have r: "res = Inr (Some f)"
    "b1 = b\<lparr>pages' := (pages' b)[f := (pages' b ! f)\<lparr>pin_count' := pin_count' (pages' b ! f) + 1\<rparr>],
            replacer' := pin (replacer' b) f\<rparr>"
    using fp fetch_page_hit[OF Some, of PS] by auto
  have "pool_inv PS b1"
    unfolding r using m by (intro pool_inv_pin[OF inv]) auto
  then show ?thesis using m Some unfolding r by (auto simp: nth_list_update_if)
next
  case None
  obtain r0 b0 where fv: "find_victim_page PS b = (r0, b0)"
    by (cases "find_victim_page PS b")
  note fvi = pool_inv_find_victim_page[OF inv fv]
  show ?thesis
  proof (cases r0)
    case (Inl e)
    then have "res = Inl e" "b1 = b0" using fp None fv by (auto simp: fetch_page_def)
    then show ?thesis using fvi by simp
  next
    case (Inr fo)
    show ?thesis
    proof (cases fo)
      case None2: None
      then have "res = Inr None" "b1 = b0" using fp None fv Inr by (auto simp: fetch_page_def)
      then show ?thesis using fvi by simp
    next
      case (Some f)
      have det: "frame_detached b0 f" and inv0: "pool_inv PS b0" using fvi Inr Some by auto
      have flen: "f < length (pages' b0)" using det by (simp add: frame_detached_def)
      have dlen: "length (data' (pages' b0 ! f)) = PS" using inv0 flen by (simp add: pool_inv_def)
      have pc0: "0 \<le> pin_count' (pages' b0 ! f)" using inv0 flen by (simp add: pool_inv_def)
      obtain rr buf where rp: "read_page PS (disk_manager' b0) (fd pid) (page_no pid)
                                 (data' (pages' b0 ! f)) PS = (rr, buf)"
        by (cases "read_page PS (disk_manager' b0) (fd pid) (page_no pid) (data' (pages' b0 ! f)) PS")
      have blen: "length buf = PS"
        using length_read_page[of PS "disk_manager' b0" "fd pid" "page_no pid" "data' (pages' b0 ! f)" PS]
          rp dlen by simp
      show ?thesis
      proof (cases rr)
        case (Inl e)
        then have r: "res = Inl e"
          "b1 = b0\<lparr>pages' := (pages' b0)[f := (pages' b0 ! f)\<lparr>id' := pid, data' := buf\<rparr>]\<rparr>"
          using fp None fv Inr Some rp by (auto simp: fetch_page_def update_page_def Let_def)
        have "pool_inv PS b1"
          unfolding r using blen pc0 by (intro pool_inv_replace_page[OF inv0 det]) auto
        then show ?thesis using r by simp
      next
        case Inr2: (Inr u)
        have pd: "pin (replacer' b0) f = replacer' b0"
          using inv0 det by (intro pin_detached) (auto simp: pool_inv_def frame_detached_def)
        have r: "res = Inr (Some f)"
          "b1 = b0\<lparr>pages' := (pages' b0)[f := (pages' b0 ! f)\<lparr>id' := pid, data' := buf,
                                                         pin_count' := 1, is_dirty' := False\<rparr>],
                    page_table' := (page_table' b0)(pid \<mapsto> f)\<rparr>"
          using fp None fv Inr Some rp Inr2 pd
          by (auto simp: fetch_page_def update_page_def Let_def)
        have "pool_inv PS b1"
          unfolding r using blen by (intro pool_inv_attach[OF inv0 det]) auto
        then show ?thesis using r flen blen by simp
      qed
    qed
  qed
qed


lemma pool_inv_new_page:
  assumes inv: "pool_inv PS b" and np: "new_page PS b pid = (res, b1)"
  shows "pool_inv PS b1 \<and>
         (\<forall>f pid1. res = Inr (Some (f, pid1)) \<longrightarrow>
            f < length (pages' b1) \<and> page_table' b1 pid1 = Some f \<and> id' (pages' b1 ! f) = pid1 \<and>
            length (data' (pages' b1 ! f)) = PS \<and> pin_count' (pages' b1 ! f) = 1 \<and>
            fd pid1 = fd pid)"
proof -
  obtain r0 b0 where fv: "find_victim_page PS b = (r0, b0)"
    by (cases "find_victim_page PS b")
  note fvi = pool_inv_find_victim_page[OF inv fv]
  show ?thesis
  proof (cases r0)
    case (Inl e)
    then have "res = Inl e" "b1 = b0" using np fv by (auto simp: new_page_def)
    then show ?thesis using fvi by simp
  next
    case (Inr fo)
    show ?thesis
    proof (cases fo)
      case None
      then have "res = Inr None" "b1 = b0" using np fv Inr by (auto simp: new_page_def)
      then show ?thesis using fvi by simp
    next
      case (Some f)
      have det: "frame_detached b0 f" and inv0: "pool_inv PS b0" using fvi Inr Some by auto
      have flen: "f < length (pages' b0)" using det by (simp add: frame_detached_def)
      have dlen: "length (data' (pages' b0 ! f)) = PS" using inv0 flen by (simp add: pool_inv_def)
      show ?thesis
      proof (cases "allocate_page (disk_manager' b0) (fd pid)")
        case (Inl e)
        then have "res = Inl e" "b1 = b0" using np fv Inr Some by (auto simp: new_page_def)
        then show ?thesis using inv0 by simp
      next
        case Inr2: (Inr a)
        obtain pno dm where a: "a = (pno, dm)" by (cases a)
        have pd: "pin (replacer' b0) f = replacer' b0"
          using inv0 det by (intro pin_detached) (auto simp: pool_inv_def frame_detached_def)
        let ?b0 = "b0\<lparr>disk_manager' := dm\<rparr>"
        have r: "res = Inr (Some (f, pid\<lparr>page_no := pno\<rparr>))"
          "b1 = ?b0\<lparr>pages' := (pages' ?b0)[f := (pages' b0 ! f)\<lparr>id' := pid\<lparr>page_no := pno\<rparr>,
                                                         pin_count' := 1, is_dirty' := False\<rparr>],
                    page_table' := (page_table' ?b0)(pid\<lparr>page_no := pno\<rparr> \<mapsto> f)\<rparr>"
          using np fv Inr Some Inr2 a pd
          by (auto simp: new_page_def update_page_def Let_def)
        have "pool_inv PS b1"
          unfolding r using dlen inv0 det by (intro pool_inv_attach) auto
        then show ?thesis using r flen dlen by simp
      qed
    qed
  qed
qed

lemma pool_inv_delete_page:
  assumes inv: "pool_inv PS b"
  shows "pool_inv PS (snd (delete_page b pid))"
proof (cases "page_table' b pid")
  case None
  then show ?thesis using inv by (simp add: delete_page_def)
next
  case (Some f)
  note m = pool_inv_mapped[OF inv Some]
  show ?thesis
  proof (cases "pin_count' (pages' b ! f) > 0")
    case True
    then show ?thesis using inv Some by (simp add: delete_page_def)
  next
    case False
    let ?p = "(pages' b ! f)\<lparr>is_dirty' := False,
                 id' := \<lparr>fd = INVALID_PAGE_ID, page_no = INVALID_PAGE_ID\<rparr>\<rparr>"
    have e: "snd (delete_page b pid) =
             b\<lparr>page_table' := (page_table' b)(pid := None),
               pages' := (pages' b)[f := ?p],
               free_list' := free_list' b @ [f],
               replacer' := pin (replacer' b) f\<rparr>"
      using Some False by (simp add: delete_page_def Let_def)
    have h: "LRUhash' (replacer' b) = set (LRUlist' (replacer' b))"
      and d: "distinct (LRUlist' (replacer' b))"
      using inv by (auto simp: pool_inv_def)
    have l: "set (LRUlist' (pin (replacer' b) f)) = set (LRUlist' (replacer' b)) - {f}"
      using h d by (auto simp: pin_def)
    have hh: "LRUhash' (pin (replacer' b) f) = set (LRUlist' (pin (replacer' b) f))"
      using h d by (auto simp: pin_def)
    have dd: "distinct (LRUlist' (pin (replacer' b) f))"
      using d by (auto simp: pin_def)
    have nf: "f \<notin> set (free_list' b)" using inv Some by (auto simp: pool_inv_def)
    have only: "\<And>k. page_table' b k = Some f \<Longrightarrow> k = pid"
      using inv m by (auto simp: pool_inv_def)
    show ?thesis
      unfolding e pool_inv_def
    proof (intro conjI allI impI ballI, goal_cases)
      case (1 k g)
      then show ?case using inv unfolding pool_inv_def by (auto split: if_splits)
    next
      case (2 k g)
      then show ?case using inv only unfolding pool_inv_def
        by (auto simp: nth_list_update_if split: if_splits)
    next
      case (3 k g)
      then show ?case using inv only unfolding pool_inv_def by (auto split: if_splits)
    next
      case (4 g)
      then show ?case using inv m unfolding pool_inv_def by auto
    next
      case 5
      then show ?case using inv nf unfolding pool_inv_def by simp
    next
      case 6
      then show ?case using hh by simp
    next
      case 7
      then show ?case using dd by simp
    next
      case (8 g)
      then show ?case using inv l unfolding pool_inv_def by simp
    next
      case (9 g)
      then show ?case using inv l unfolding pool_inv_def
        by (auto simp: nth_list_update_if)
    next
      case (10 g)
      then show ?case using inv l unfolding pool_inv_def by auto
    next
      case (11 i)
      then show ?case using inv unfolding pool_inv_def by (auto simp: nth_list_update_if)
    next
      case (12 i)
      then show ?case using inv unfolding pool_inv_def by (auto simp: nth_list_update_if)
    qed
  qed
qed

lemma pool_inv_clean:
  assumes inv: "pool_inv PS b"
  shows "pool_inv PS (b\<lparr>disk_manager' := dm,
                        pages' := (pages' b)[f := (pages' b ! f)\<lparr>is_dirty' := False\<rparr>]\<rparr>)"
  using inv unfolding pool_inv_def by (auto simp: nth_list_update_if)

lemma pool_inv_flush_page:
  assumes inv: "pool_inv PS b"
  shows "pool_inv PS (snd (flush_page PS b pid))"
  using inv pool_inv_clean[OF inv]
  by (auto simp: flush_page_def Let_def split: option.splits sum.splits)

lemma pool_inv_flush_frames:
  "pool_inv PS b \<Longrightarrow> pool_inv PS (snd (flush_frames PS fd0 is b))"
proof (induction "is" arbitrary: b)
  case Nil
  then show ?case by simp
next
  case (Cons i "is")
  show ?case
    using Cons.prems Cons.IH pool_inv_clean[OF Cons.prems]
    by (auto simp: Let_def split: sum.splits)
qed

lemma pool_inv_flush_all_pages:
  "pool_inv PS b \<Longrightarrow> pool_inv PS (snd (flush_all_pages PS b fd0))"
  by (simp add: flush_all_pages_def pool_inv_flush_frames)

lemma pool_inv_new:
  "pool_inv PS (BufferPoolManager_new PS n dm)"
  by (auto simp: pool_inv_def BufferPoolManager_new_def LRUReplacer_new_def)

section \<open>Least recently unpinned\<close>

lemma reachable_pool_inv:
  "reachable PS N dm b \<Longrightarrow> pool_inv PS b"
proof (induction rule: reachable.induct)
  case reach_new
  show ?case by (rule pool_inv_new)
next
  case (reach_fetch_page b pid)
  then show ?case
    using pool_inv_fetch_page[of PS b pid "fst (fetch_page PS b pid)" "snd (fetch_page PS b pid)"]
    by simp
next
  case (reach_new_page b pid)
  then show ?case
    using pool_inv_new_page[of PS b pid "fst (new_page PS b pid)" "snd (new_page PS b pid)"]
    by simp
next
  case (reach_unpin_page b pid is_dirty)
  then show ?case by (simp add: pool_inv_unpin_page)
next
  case (reach_delete_page b pid)
  then show ?case by (simp add: pool_inv_delete_page)
next
  case (reach_flush_page b pid)
  then show ?case by (simp add: pool_inv_flush_page)
next
  case (reach_flush_all_pages b fd0)
  then show ?case by (simp add: pool_inv_flush_all_pages)
qed

lemma victim_not_pinned:
  assumes inv: "pool_inv PS b" and fl: "free_list' b = []"
    and fv: "fst (find_victim_page PS b) = Inr (Some f)"
  shows "f \<in> set (LRUlist' (replacer' b)) \<and> pin_count' (pages' b ! f) = 0"
proof -
  have "f = last (LRUlist' (replacer' b)) \<and> LRUlist' (replacer' b) \<noteq> []"
    using fl fv
    by (auto simp: find_victim_page_def victim_def Let_def split: if_splits sum.splits)
  then have "f \<in> set (LRUlist' (replacer' b))" by simp
  then show ?thesis using inv by (auto simp: pool_inv_def)
qed

lemma readable_read_page:
  "readable PS dm pid \<Longrightarrow> fst (read_page PS dm (fd pid) (page_no pid) buf PS) = Inr ()"
  by (auto simp: readable_def read_page_def Let_def split: option.splits if_splits)

lemma pool_shape_new: "pool_shape N dm [] 0 (BufferPoolManager_new PS N dm)"
  by (simp add: pool_shape_def BufferPoolManager_new_def LRUReplacer_new_def)

lemma pool_shape_fetch:
  assumes sh: "pool_shape N dm ps 0 b" and lt: "length ps < N" and new: "p \<notin> set ps"
    and rd: "readable PS dm p"
  shows "pool_shape N dm (ps @ [p]) 0 (snd (fetch_page PS b p))"
proof -
  let ?k = "length ps"
  have pt: "page_table' b p = None" using sh new by (simp add: pool_shape_def)
  have fl: "free_list' b = ?k # [Suc ?k..<N]"
    using sh lt by (simp add: pool_shape_def upt_conv_Cons)
  have fv: "find_victim_page PS b = (Inr (Some ?k), b\<lparr>free_list' := [Suc ?k..<N]\<rparr>)"
    using fl by (simp add: find_victim_page_def)
  have dm: "disk_manager' b = dm" using sh by (simp add: pool_shape_def)
  obtain buf where rp: "read_page PS dm (fd p) (page_no p) (data' (pages' b ! ?k)) PS = (Inr (), buf)"
    using readable_read_page[OF rd, of "data' (pages' b ! ?k)"]
    by (cases "read_page PS dm (fd p) (page_no p) (data' (pages' b ! ?k)) PS") auto
  have pn: "pin (replacer' b) ?k = replacer' b"
    using sh by (simp add: pin_def pool_shape_def)
  have e: "snd (fetch_page PS b p) =
           b\<lparr>free_list' := [Suc ?k..<N],
             pages' := (pages' b)[?k := (pages' b ! ?k)\<lparr>id' := p, data' := buf,
                                                         pin_count' := 1, is_dirty' := False\<rparr>],
             page_table' := (page_table' b)(p \<mapsto> ?k)\<rparr>"
    using pt fv rp dm pn by (simp add: fetch_page_def update_page_def Let_def)
  have len: "length (pages' b) = N" using sh by (simp add: pool_shape_def)
  show ?thesis
    unfolding e pool_shape_def
  proof (intro conjI allI impI, goal_cases)
    case 1 then show ?case using len by simp
  next
    case 2 then show ?case using lt by simp
  next
    case 3 then show ?case using sh new by (simp add: pool_shape_def)
  next
    case 4 then show ?case by simp
  next
    case (5 i) then show ?case using sh lt len
      by (auto simp: pool_shape_def nth_list_update_if nth_append)
  next
    case (6 i) then show ?case using sh lt len
      by (auto simp: pool_shape_def nth_list_update_if nth_append)
  next
    case (7 i) then show ?case using sh new
      by (auto simp: pool_shape_def nth_append)
  next
    case (8 q) then show ?case using sh by (auto simp: pool_shape_def)
  next
    case 9 then show ?case by simp
  next
    case 10 then show ?case using sh by (simp add: pool_shape_def)
  next
    case 11 then show ?case using sh by (simp add: pool_shape_def)
  next
    case 12 then show ?case using sh by (simp add: pool_shape_def)
  qed
qed

lemma fetch_all_snoc:
  "fetch_all PS b (ps @ [p]) = snd (fetch_page PS (fetch_all PS b ps) p)"
  by (induction ps arbitrary: b) simp_all

lemma unpin_all_snoc:
  "unpin_all b (ps @ [p]) ds = snd (unpin_page (unpin_all b ps ds) p (ds p))"
  by (induction ps arbitrary: b) simp_all

lemma pool_shape_fetch_all:
  assumes "length ps \<le> N" and "distinct ps" and "\<forall>p \<in> set ps. readable PS dm p"
  shows "pool_shape N dm ps 0 (fetch_all PS (BufferPoolManager_new PS N dm) ps)"
  using assms
proof (induction ps rule: rev_induct)
  case Nil
  show ?case by (simp add: pool_shape_new)
next
  case (snoc p ps)
  then have "pool_shape N dm ps 0 (fetch_all PS (BufferPoolManager_new PS N dm) ps)" by simp
  then show ?case
    using snoc.prems by (simp add: fetch_all_snoc pool_shape_fetch)
qed


lemma pool_shape_unpin:
  assumes sh: "pool_shape N dm ps j b" and lt: "j < length ps"
  shows "pool_shape N dm ps (Suc j) (snd (unpin_page b (ps ! j) d))"
proof -
  have pt: "page_table' b (ps ! j) = Some j" using sh lt by (simp add: pool_shape_def)
  have pc: "pin_count' (pages' b ! j) = 1" using sh lt by (simp add: pool_shape_def)
  have len: "length (pages' b) = N" "length ps \<le> N" using sh by (simp_all add: pool_shape_def)
  have up: "unpin (replacer' b) j =
            (replacer' b)\<lparr>LRUlist' := rev [0..<Suc j], LRUhash' := {0..<Suc j}\<rparr>"
  proof -
    have "insert j {0..<j} = {0..<Suc j}" by auto
    then show ?thesis using sh by (simp add: unpin_def pool_shape_def)
  qed
  let ?p = "(if d then (pages' b ! j)\<lparr>is_dirty' := True\<rparr> else pages' b ! j)\<lparr>pin_count' := 0\<rparr>"
  have e: "snd (unpin_page b (ps ! j) d) =
           b\<lparr>pages' := (pages' b)[j := ?p],
             replacer' := (replacer' b)\<lparr>LRUlist' := rev [0..<Suc j], LRUhash' := {0..<Suc j}\<rparr>\<rparr>"
    using pt pc up by (simp add: unpin_page_def Let_def)
  show ?thesis
    unfolding e pool_shape_def
  proof (intro conjI allI impI, goal_cases)
    case 1 then show ?case using len by simp
  next
    case 2 then show ?case using len by simp
  next
    case 3 then show ?case using sh by (simp add: pool_shape_def)
  next
    case 4 then show ?case using lt by simp
  next
    case (5 i) then show ?case using sh lt len
      by (auto simp: pool_shape_def nth_list_update_if)
  next
    case (6 i) then show ?case using sh lt len
      by (auto simp: pool_shape_def nth_list_update_if)
  next
    case (7 i) then show ?case using sh by (simp add: pool_shape_def)
  next
    case (8 q) then show ?case using sh by (simp add: pool_shape_def)
  next
    case 9 then show ?case using sh by (simp add: pool_shape_def)
  next
    case 10 then show ?case by simp
  next
    case 11 then show ?case by simp
  next
    case 12 then show ?case by simp
  qed
qed

lemma pool_shape_unpin_take:
  assumes sh: "pool_shape N dm ps 0 b" and j: "j \<le> length ps"
  shows "pool_shape N dm ps j (unpin_all b (take j ps) ds)"
  using j
proof (induction j)
  case 0
  show ?case using sh by simp
next
  case (Suc j)
  then have "pool_shape N dm ps j (unpin_all b (take j ps) ds)" by simp
  then show ?case
    using Suc.prems by (simp add: take_Suc_conv_app_nth unpin_all_snoc pool_shape_unpin)
qed

lemma pool_shape_unpin_all:
  "pool_shape N dm ps 0 b \<Longrightarrow> pool_shape N dm ps (length ps) (unpin_all b ps ds)"
  using pool_shape_unpin_take[of N dm ps b "length ps" ds] by simp

lemma pool_shape_evict:
  assumes sh: "pool_shape N dm ps N b" and n: "0 < N" and new: "q \<notin> set ps"
    and fp: "fetch_page PS b q = (Inr r, b1)"
  shows "r = Some 0 \<and> page_table' b1 = ((page_table' b)(ps ! 0 := None))(q \<mapsto> 0)"
proof -
  have lps: "length ps = N" using sh by (simp add: pool_shape_def)
  have pt: "page_table' b q = None" using sh new by (simp add: pool_shape_def)
  have fl: "free_list' b = []" using sh lps by (simp add: pool_shape_def)
  have ll: "LRUlist' (replacer' b) = rev [0..<N]" using sh by (simp add: pool_shape_def)
  have ne: "LRUlist' (replacer' b) \<noteq> []" using ll n by simp
  have la: "last (LRUlist' (replacer' b)) = 0"
    using ll n by (simp add: last_rev hd_upt)
  have id0: "id' (pages' b ! 0) = ps ! 0" using sh n lps by (simp add: pool_shape_def)
  obtain r0 where v: "victim (replacer' b) = (Some 0, r0)"
    using ne la by (simp add: victim_def Let_def)
  show ?thesis
    using fp pt fl v id0
    by (auto simp: fetch_page_def find_victim_page_def update_page_def Let_def
        split: sum.splits prod.splits option.splits if_splits)
qed

text \<open>
  C3. Starting from an empty pool of \<open>N\<close> frames: after \<open>N\<close> distinct pages \<open>ps\<close> were
  fetched and then unpinned once each in the same order (with any dirty flags), a fetch
  of one more page \<open>q\<close> that meets no I/O error takes frame 0, the frame of the first
  page: exactly that page leaves the page table, the others stay where they are. And in
  every pool that calls of the public methods produce from an empty one, a frame the
  replacer gives up for eviction has pin count 0.
\<close>

theorem lru_evicts_first_unpinned:
  assumes len: "length ps = N" and pos: "0 < N" and dist: "distinct (ps @ [q])"
    and rd: "\<forall>p \<in> set ps. readable PAGE_SIZE dm p"
    and b2: "b2 = unpin_all (fetch_all PAGE_SIZE (BufferPoolManager_new PAGE_SIZE N dm) ps) ps ds"
    and fp: "fetch_page PAGE_SIZE b2 q = (Inr r, b3)"
  shows "r = Some 0 \<and>
         page_table' b2 (hd ps) = Some 0 \<and>
         page_table' b3 (hd ps) = None \<and>
         page_table' b3 q = Some 0 \<and>
         (\<forall>p \<in> set (tl ps). page_table' b2 p \<noteq> None \<and> page_table' b3 p = page_table' b2 p) \<and>
         (\<forall>i < N. pin_count' (pages' b2 ! i) = 0) \<and>
         (\<forall>n d b f. reachable PAGE_SIZE n d b \<and> free_list' b = [] \<and>
                      fst (find_victim_page PAGE_SIZE b) = Inr (Some f) \<longrightarrow>
                      pin_count' (pages' b ! f) = 0)"
proof -
  have d: "distinct ps" and new: "q \<notin> set ps" using dist by auto
  have "pool_shape N dm ps 0 (fetch_all PAGE_SIZE (BufferPoolManager_new PAGE_SIZE N dm) ps)"
    using len d rd by (intro pool_shape_fetch_all) auto
  then have sh: "pool_shape N dm ps N b2"
    unfolding b2 using pool_shape_unpin_all len by blast
  have ev: "r = Some 0" "page_table' b3 = ((page_table' b2)(ps ! 0 := None))(q \<mapsto> 0)"
    using pool_shape_evict[OF sh pos new fp] by auto
  have ne: "ps \<noteq> []" using len pos by auto
  have hd: "hd ps = ps ! 0" using ne by (simp add: hd_conv_nth)
  have pt: "\<And>i. i < N \<Longrightarrow> page_table' b2 (ps ! i) = Some i"
    using sh len by (simp add: pool_shape_def)
  have c2: "page_table' b2 (hd ps) = Some 0" using pt[of 0] pos hd by simp
  have c3: "page_table' b3 (hd ps) = None"
    using ev hd new ne by (auto simp: hd_in_set)
  have c4: "page_table' b3 q = Some 0" using ev by simp
  have c5: "\<forall>p \<in> set (tl ps). page_table' b2 p \<noteq> None \<and> page_table' b3 p = page_table' b2 p"
  proof
    fix p assume p: "p \<in> set (tl ps)"
    then have pin: "p \<in> set ps" using ne by (simp add: list.set_sel(2))
    then obtain i where i: "i < N" "ps ! i = p" using len by (auto simp: in_set_conv_nth)
    have "p \<noteq> hd ps" using p d ne by (cases ps) auto
    moreover have "p \<noteq> q" using pin new by auto
    ultimately show "page_table' b2 p \<noteq> None \<and> page_table' b3 p = page_table' b2 p"
      using pt[OF i(1)] i ev hd by simp
  qed
  have c6: "\<forall>i < N. pin_count' (pages' b2 ! i) = 0"
    using sh len by (simp add: pool_shape_def)
  have c7: "\<forall>n d b f. reachable PAGE_SIZE n d b \<and> free_list' b = [] \<and>
                      fst (find_victim_page PAGE_SIZE b) = Inr (Some f) \<longrightarrow>
                      pin_count' (pages' b ! f) = 0"
    using victim_not_pinned reachable_pool_inv by blast
  show ?thesis using ev(1) c2 c3 c4 c5 c6 c7 by blast
qed

theorem lru_evicts_first_unpinned_witness:
  "fst (fetch_page 16 ex_pool_cycled \<lparr>fd = 3, page_no = 5\<rparr>) = Inr (Some 0) \<and>
   page_table' ex_pool_cycled \<lparr>fd = 3, page_no = 1\<rparr> = Some 0 \<and>
   page_table' (snd (fetch_page 16 ex_pool_cycled \<lparr>fd = 3, page_no = 5\<rparr>)) \<lparr>fd = 3, page_no = 1\<rparr> = None \<and>
   page_table' (snd (fetch_page 16 ex_pool_cycled \<lparr>fd = 3, page_no = 5\<rparr>)) \<lparr>fd = 3, page_no = 5\<rparr> = Some 0"
proof -
  have r: "\<forall>p \<in> set [\<lparr>fd = 3, page_no = 1\<rparr>, \<lparr>fd = 3, page_no = 2\<rparr>]. readable 16 ex_disk p"
    by (simp add: readable_def read_page_def os_fstat_def os_contents_def ex_disk_def)
  have f: "fst (fetch_page 16 ex_pool_cycled \<lparr>fd = 3, page_no = 5\<rparr>) = Inr (Some 0)"
    by code_simp
  then have e: "fetch_page 16 ex_pool_cycled \<lparr>fd = 3, page_no = 5\<rparr>
                  = (Inr (Some 0), snd (fetch_page 16 ex_pool_cycled \<lparr>fd = 3, page_no = 5\<rparr>))"
    by (simp add: prod_eq_iff)
  show ?thesis
    using lru_evicts_first_unpinned
      [of "[\<lparr>fd = 3, page_no = 1\<rparr>, \<lparr>fd = 3, page_no = 2\<rparr>]" 2 "\<lparr>fd = 3, page_no = 5\<rparr>" 16 ex_disk
          ex_pool_cycled ex_flags "Some 0"
          "snd (fetch_page 16 ex_pool_cycled \<lparr>fd = 3, page_no = 5\<rparr>)", OF _ _ _ r ex_pool_cycled_def e]
      f
    by simp
qed

section \<open>Scanning\<close>

text \<open>
  C2. Every page a scan visits should be unpinned again. \<open>RmScan::next\<close> never unpins:
  on the file with one record in page 1, whose page has pin count 0, constructing the
  scan finds the record and leaves the pin count at 1, and advancing it to the end
  leaves it at 2.
\<close>

theorem scan_leaves_pages_pinned:
  "num_pages (file_hdr' ex_file_one) = 2 \<and>
   page_table' (buffer_pool_manager' ex_file_one) \<lparr>fd = 3, page_no = 1\<rparr> = Some 0 \<and>
   pin_count' (pages' (buffer_pool_manager' ex_file_one) ! 0) = 0 \<and>
   fst ex_scan_start = Inr () \<and>
   rid' (snd (snd ex_scan_start)) = \<lparr>rid_page_no = 1, slot_no = 0\<rparr> \<and>
   pin_count' (pages' (buffer_pool_manager' (fst (snd ex_scan_start))) ! 0) = 1 \<and>
   fst ex_scan_done = Inr () \<and>
   RmScan_is_end (snd (snd ex_scan_done)) \<and>
   pin_count' (pages' (buffer_pool_manager' (fst (snd ex_scan_done))) ! 0) = 2"
  by code_simp

section \<open>Record files\<close>

lemma handle_onD:
  assumes "handle_on PS fh ph pno"
  shows "page_hdr ph = 0" "bitmap ph = sizeof_RmPageHdr" "pool_inv PS (buffer_pool_manager' fh)"
    "page_table' (buffer_pool_manager' fh) \<lparr>fd = fd' fh, page_no = pno\<rparr> = Some (page ph)"
    "page ph < length (pages' (buffer_pool_manager' fh))"
    "get_page_id fh ph = \<lparr>fd = fd' fh, page_no = pno\<rparr>"
    "length (page_data fh ph) = PS"
  using assms pool_inv_mapped[of PS "buffer_pool_manager' fh" "\<lparr>fd = fd' fh, page_no = pno\<rparr>" "page ph"]
  by (auto simp: handle_on_def get_page_id_def page_data_def)

lemma write_page_fd2pageno:
  "write_page PS dm fdx p buf n = Inr dm1 \<Longrightarrow> fd2pageno' dm1 = fd2pageno' dm"
  by (auto simp: write_page_def os_write_def Let_def split: option.splits if_splits)

lemma find_victim_page_fd2pageno:
  "fd2pageno' (disk_manager' (snd (find_victim_page PS b))) = fd2pageno' (disk_manager' b)"
  by (auto simp: find_victim_page_def Let_def write_page_fd2pageno
      split: list.splits prod.splits option.splits sum.splits)

lemma fetch_page_fd2pageno:
  "fd2pageno' (disk_manager' (snd (fetch_page PS b pid))) = fd2pageno' (disk_manager' b)"
proof -
  obtain r0 b0 where fv: "find_victim_page PS b = (r0, b0)" by (cases "find_victim_page PS b")
  have "fd2pageno' (disk_manager' b0) = fd2pageno' (disk_manager' b)"
    using find_victim_page_fd2pageno[of PS b] fv by simp
  then show ?thesis
    using fv by (auto simp: fetch_page_def Let_def split: option.splits sum.splits prod.splits)
qed

lemma new_page_fd2pageno:
  assumes "new_page PS b pid = (Inr (Some (f, pid1)), b1)"
  shows "pid1 = pid\<lparr>page_no := fd2pageno' (disk_manager' b) (fd pid)\<rparr> \<and>
         fd2pageno' (disk_manager' b1) =
           (fd2pageno' (disk_manager' b))
             (fd pid := wrap32 (fd2pageno' (disk_manager' b) (fd pid) + 1))"
proof -
  obtain r0 b0 where fv: "find_victim_page PS b = (r0, b0)" by (cases "find_victim_page PS b")
  have "fd2pageno' (disk_manager' b0) = fd2pageno' (disk_manager' b)"
    using find_victim_page_fd2pageno[of PS b] fv by simp
  then show ?thesis
    using fv assms
    by (auto simp: new_page_def allocate_page_def Let_def
        split: option.splits sum.splits prod.splits if_splits)
qed

lemma fetch_page_handle_on:
  assumes inv: "pool_inv PS (buffer_pool_manager' fh)"
    and f: "fetch_page_handle PS fh pno = (Inr ph, fh1)"
  shows "handle_on PS fh1 ph pno \<and> file_hdr' fh1 = file_hdr' fh \<and> fd' fh1 = fd' fh \<and>
         fd2pageno' (disk_manager' (buffer_pool_manager' fh1)) =
           fd2pageno' (disk_manager' (buffer_pool_manager' fh))"
proof -
  let ?pid = "\<lparr>fd = fd' fh, page_no = pno\<rparr>"
  obtain r b1 where fp: "fetch_page PS (buffer_pool_manager' fh) ?pid = (r, b1)"
    by (cases "fetch_page PS (buffer_pool_manager' fh) ?pid")
  from f fp obtain fr where r: "r = Inr (Some fr)"
    and ph: "ph = \<lparr>page = fr, page_hdr = 0, bitmap = sizeof_RmPageHdr\<rparr>"
    and fh1: "fh1 = fh\<lparr>buffer_pool_manager' := b1\<rparr>"
    by (auto simp: fetch_page_handle_def split: sum.splits option.splits)
  have "pool_inv PS b1 \<and> page_table' b1 ?pid = Some fr"
    using pool_inv_fetch_page[OF inv fp] r by simp
  moreover have "fd2pageno' (disk_manager' b1) = fd2pageno' (disk_manager' (buffer_pool_manager' fh))"
    using fetch_page_fd2pageno[of PS "buffer_pool_manager' fh" ?pid] fp by simp
  ultimately show ?thesis
    unfolding ph fh1 by (simp add: handle_on_def)
qed

lemma fetch_page_handle_cached:
  assumes inv: "pool_inv PS (buffer_pool_manager' fh)"
    and pt: "page_table' (buffer_pool_manager' fh) \<lparr>fd = fd' fh, page_no = pno\<rparr> = Some f"
  shows "\<exists>fh1. fetch_page_handle PS fh pno
                  = (Inr \<lparr>page = f, page_hdr = 0, bitmap = sizeof_RmPageHdr\<rparr>, fh1) \<and>
               data' (pages' (buffer_pool_manager' fh1) ! f)
                  = data' (pages' (buffer_pool_manager' fh) ! f)"
  using pt pool_inv_mapped[OF inv pt]
  by (simp add: fetch_page_handle_def fetch_page_hit)

lemma pool_inv_set_page_data:
  assumes "pool_inv PS (buffer_pool_manager' fh)" and "length d = PS"
  shows "pool_inv PS (buffer_pool_manager' (set_page_data fh ph d))"
  using assms unfolding pool_inv_def set_page_data_def Let_def
  by (auto simp: nth_list_update_if)

lemma handle_on_set_page_data:
  assumes h: "handle_on PS fh ph pno" and len: "length d = PS"
  shows "handle_on PS (set_page_data fh ph d) ph pno"
    and "page_data (set_page_data fh ph d) ph = d"
    and "file_hdr' (set_page_data fh ph d) = file_hdr' fh"
    and "fd' (set_page_data fh ph d) = fd' fh"
    and "disk_manager' (buffer_pool_manager' (set_page_data fh ph d))
           = disk_manager' (buffer_pool_manager' fh)"
proof -
  note hd = handle_onD[OF h]
  show "handle_on PS (set_page_data fh ph d) ph pno"
    using hd pool_inv_set_page_data[OF hd(3) len, of ph]
    by (simp add: handle_on_def) (simp add: set_page_data_def Let_def)
  show "page_data (set_page_data fh ph d) ph = d"
    using hd(5) by (simp add: page_data_def set_page_data_def Let_def)
qed (simp_all add: set_page_data_def Let_def)

lemma handle_on_file_hdr [simp]:
  "handle_on PS (fh\<lparr>file_hdr' := h\<rparr>) ph pno = handle_on PS fh ph pno"
  by (simp add: handle_on_def)

lemma page_data_file_hdr [simp]: "page_data (fh\<lparr>file_hdr' := h\<rparr>) ph = page_data fh ph"
  by (simp add: page_data_def)

lemma get_page_id_file_hdr [simp]: "get_page_id (fh\<lparr>file_hdr' := h\<rparr>) ph = get_page_id fh ph"
  by (simp add: get_page_id_def)

lemma unpin_page_keeps:
  "page_table' (snd (unpin_page b pid d)) = page_table' b"
  "disk_manager' (snd (unpin_page b pid d)) = disk_manager' b"
  "data' (pages' (snd (unpin_page b pid d)) ! i) = data' (pages' b ! i)"
  by (auto simp: unpin_page_def Let_def nth_list_update_if split: option.splits)

lemma handle_on_unpin_in:
  assumes h: "handle_on PS fh ph pno"
  shows "handle_on PS (unpin_in fh pid d) ph pno"
    and "page_data (unpin_in fh pid d) ph = page_data fh ph"
    and "file_hdr' (unpin_in fh pid d) = file_hdr' fh"
    and "fd' (unpin_in fh pid d) = fd' fh"
    and "disk_manager' (buffer_pool_manager' (unpin_in fh pid d))
           = disk_manager' (buffer_pool_manager' fh)"
  using h pool_inv_unpin_page[of PS "buffer_pool_manager' fh" pid d]
  by (simp_all add: handle_on_def unpin_in_def unpin_page_keeps page_data_def)

lemma cached_page_handle_on:
  "handle_on PS fh ph pno \<Longrightarrow> cached_page fh pno = Some (page_data fh ph)"
  by (simp add: handle_on_def cached_page_def page_data_def)


lemma fresh_page_header:
  assumes "8 \<le> length d"
  shows "rd_int32 (Bitmap_init (wr_int32 (wr_int32 d 0 RM_NO_FREE_PAGE) 4 0) 8 bs) 0
           = RM_NO_FREE_PAGE"
    and "rd_int32 (Bitmap_init (wr_int32 (wr_int32 d 0 RM_NO_FREE_PAGE) 4 0) 8 bs) 4 = 0"
proof -
  let ?d1 = "wr_int32 d 0 RM_NO_FREE_PAGE"
  let ?d2 = "wr_int32 ?d1 4 0"
  have "rd_int32 (Bitmap_init ?d2 8 bs) 0 = rd_int32 ?d2 0"
    by (rule rd_int32_cong) (simp_all add: nth_Bitmap_init_outside)
  also have "\<dots> = rd_int32 ?d1 0" by (simp add: rd_int32_wr_int32_other)
  also have "\<dots> = RM_NO_FREE_PAGE"
    using assms by (simp add: rd_wr_int32_same_int32 is_int32_def RM_NO_FREE_PAGE_def)
  finally show "rd_int32 (Bitmap_init ?d2 8 bs) 0 = RM_NO_FREE_PAGE" .
  have "rd_int32 (Bitmap_init ?d2 8 bs) 4 = rd_int32 ?d2 4"
    by (rule rd_int32_cong) (simp_all add: nth_Bitmap_init_outside)
  also have "\<dots> = 0"
    using assms by (simp add: rd_wr_int32_same_int32 is_int32_def)
  finally show "rd_int32 (Bitmap_init ?d2 8 bs) 4 = 0" .
qed

lemma create_new_page_handle_on:
  assumes inv: "pool_inv PS (buffer_pool_manager' fh)" and ps: "8 \<le> PS"
    and cn: "create_new_page_handle PS fh = (Inr ph, fh1)"
  shows "handle_on PS fh1 ph (fd2pageno' (disk_manager' (buffer_pool_manager' fh)) (fd' fh)) \<and>
         fd2pageno' (disk_manager' (buffer_pool_manager' fh1)) (fd' fh)
           = wrap32 (fd2pageno' (disk_manager' (buffer_pool_manager' fh)) (fd' fh) + 1) \<and>
         file_hdr' fh1 = (file_hdr' fh)\<lparr>num_pages := wrap32 (num_pages (file_hdr' fh) + 1)\<rparr> \<and>
         fd' fh1 = fd' fh \<and>
         rd_int32 (page_data fh1 ph) OFFSET_NEXT_FREE_PAGE_NO = RM_NO_FREE_PAGE \<and>
         rd_int32 (page_data fh1 ph) OFFSET_NUM_RECORDS = 0"
proof -
  let ?pid = "\<lparr>fd = fd' fh, page_no = INVALID_PAGE_ID\<rparr>"
  let ?pno = "fd2pageno' (disk_manager' (buffer_pool_manager' fh)) (fd' fh)"
  obtain r b1 where np: "new_page PS (buffer_pool_manager' fh) ?pid = (r, b1)"
    by (cases "new_page PS (buffer_pool_manager' fh) ?pid")
  from cn np obtain fr pid1 where r: "r = Inr (Some (fr, pid1))"
    by (auto simp: create_new_page_handle_def split: sum.splits option.splits)
  let ?fh0 = "fh\<lparr>buffer_pool_manager' := b1\<rparr>"
  let ?ph = "\<lparr>page = fr, page_hdr = 0, bitmap = sizeof_RmPageHdr\<rparr>"
  let ?d = "Bitmap_init (wr_int32 (wr_int32 (page_data ?fh0 ?ph) 0 RM_NO_FREE_PAGE) 4 0) 8
              (bitmap_size (file_hdr' fh))"
  have ph: "ph = ?ph"
    and fh1: "fh1 = (set_page_data ?fh0 ?ph ?d)
                \<lparr>file_hdr' := (file_hdr' fh)\<lparr>num_pages := wrap32 (num_pages (file_hdr' fh) + 1)\<rparr>\<rparr>"
    using cn np r
    by (auto simp: create_new_page_handle_def Let_def OFFSET_NEXT_FREE_PAGE_NO_def
        OFFSET_NUM_RECORDS_def sizeof_RmPageHdr_def set_page_data_def)
  have npi: "pool_inv PS b1" "page_table' b1 pid1 = Some fr" "fd pid1 = fd' fh"
    using pool_inv_new_page[OF inv np] r by auto
  have nf: "pid1 = \<lparr>fd = fd' fh, page_no = ?pno\<rparr>"
    "fd2pageno' (disk_manager' b1) (fd' fh) = wrap32 (?pno + 1)"
    using new_page_fd2pageno[of PS "buffer_pool_manager' fh" ?pid fr pid1 b1] np r by auto
  have h0: "handle_on PS ?fh0 ?ph ?pno"
    using npi nf by (simp add: handle_on_def)
  have l0: "length (page_data ?fh0 ?ph) = PS" using handle_onD(7)[OF h0] .
  have ld: "length ?d = PS" using l0 by simp
  note sd = handle_on_set_page_data[OF h0 ld]
  have hdr: "rd_int32 ?d 0 = RM_NO_FREE_PAGE" "rd_int32 ?d 4 = 0"
    using fresh_page_header[of "page_data ?fh0 ?ph"] l0 ps by auto
  show ?thesis
    unfolding fh1 ph using sd hdr nf
    by (simp add: OFFSET_NEXT_FREE_PAGE_NO_def OFFSET_NUM_RECORDS_def)
qed

lemma create_new_page_handle_first_free:
  "first_free_page_no (file_hdr' (snd (create_new_page_handle PS fh)))
     = first_free_page_no (file_hdr' fh)"
  by (auto simp: create_new_page_handle_def set_page_data_def Let_def
      split: prod.splits sum.splits option.splits)


lemma length_page_insert [simp]: "length (page_insert hdr d slot buf) = length d"
  by (simp add: page_insert_def Let_def)



lemma handle_on_unique:
  "handle_on PS fh ph p \<Longrightarrow> handle_on PS fh ph q \<Longrightarrow> p = q"
  using handle_onD(6)[of PS fh ph p] handle_onD(6)[of PS fh ph q] by simp

lemma hdr_fits_page_size: "hdr_fits PS hdr \<Longrightarrow> 8 \<le> PS"
  by (simp add: hdr_fits_def sizeof_RmPageHdr_def)

lemma create_page_handle_on:
  assumes inv: "pool_inv PS (buffer_pool_manager' fh)" and ps: "8 \<le> PS"
    and cp: "create_page_handle PS fh = (Inr ph, fh1)"
  shows "\<exists>pno. handle_on PS fh1 ph pno \<and> fd' fh1 = fd' fh \<and>
           (\<exists>n. file_hdr' fh1 = (file_hdr' fh)\<lparr>num_pages := n\<rparr>) \<and>
           (first_free_page_no (file_hdr' fh) \<noteq> RM_NO_FREE_PAGE \<longrightarrow>
              pno = first_free_page_no (file_hdr' fh)) \<and>
           (first_free_page_no (file_hdr' fh) = RM_NO_FREE_PAGE \<longrightarrow>
              pno = fd2pageno' (disk_manager' (buffer_pool_manager' fh)) (fd' fh) \<and>
              fd2pageno' (disk_manager' (buffer_pool_manager' fh1)) (fd' fh) = wrap32 (pno + 1) \<and>
              num_pages (file_hdr' fh1) = wrap32 (num_pages (file_hdr' fh) + 1) \<and>
              rd_int32 (page_data fh1 ph) OFFSET_NEXT_FREE_PAGE_NO = RM_NO_FREE_PAGE)"
proof (cases "first_free_page_no (file_hdr' fh) \<noteq> RM_NO_FREE_PAGE")
  case True
  then have "fetch_page_handle PS fh (first_free_page_no (file_hdr' fh)) = (Inr ph, fh1)"
    using cp by (simp add: create_page_handle_def)
  from fetch_page_handle_on[OF inv this] have
    "handle_on PS fh1 ph (first_free_page_no (file_hdr' fh))" "fd' fh1 = fd' fh"
    "file_hdr' fh1 = (file_hdr' fh)\<lparr>num_pages := num_pages (file_hdr' fh)\<rparr>"
    by simp_all
  then show ?thesis using True by blast
next
  case False
  then have "create_new_page_handle PS fh = (Inr ph, fh1)"
    using cp by (simp add: create_page_handle_def)
  from create_new_page_handle_on[OF inv ps this] show ?thesis
    using False by auto
qed

lemma insert_record_result:
  assumes inv: "pool_inv PS (buffer_pool_manager' fh)" and hf: "hdr_fits PS (file_hdr' fh)"
    and ins: "insert_record PS fh buf = (Inr rid, fh4)"
  obtains ph fh1 pno where
    "create_page_handle PS fh = (Inr ph, fh1)"
    "handle_on PS fh1 ph pno"
    "handle_on PS fh4 ph pno"
    "rid_page_no rid = pno"
    "0 \<le> slot_no rid" "slot_no rid < num_records_per_page (file_hdr' fh)"
    "page_data fh4 ph = page_insert (file_hdr' fh) (page_data fh1 ph) (slot_no rid) buf"
    "fd' fh4 = fd' fh"
    "file_hdr' fh4 =
       (if rd_int32 (page_data fh4 ph) OFFSET_NUM_RECORDS = num_records_per_page (file_hdr' fh1)
           \<and> first_free_page_no (file_hdr' fh1) = pno
        then (file_hdr' fh1)\<lparr>first_free_page_no :=
                                 rd_int32 (page_data fh4 ph) OFFSET_NEXT_FREE_PAGE_NO\<rparr>
        else file_hdr' fh1)"
    "disk_manager' (buffer_pool_manager' fh4) = disk_manager' (buffer_pool_manager' fh1)"
proof -
  obtain r fh1 where cp0: "create_page_handle PS fh = (r, fh1)"
    by (cases "create_page_handle PS fh")
  from ins cp0 obtain ph where r: "r = Inr ph"
    by (auto simp: insert_record_def split: sum.splits)
  have cp: "create_page_handle PS fh = (Inr ph, fh1)" using cp0 r by simp
  from create_page_handle_on[OF inv hdr_fits_page_size[OF hf] cp]
  obtain pno n where h1: "handle_on PS fh1 ph pno" and fd1: "fd' fh1 = fd' fh"
    and hdr1: "file_hdr' fh1 = (file_hdr' fh)\<lparr>num_pages := n\<rparr>"
    by blast
  note hd1 = handle_onD[OF h1]
  let ?slot = "Bitmap_first_bit False (page_data fh1 ph) sizeof_RmPageHdr
                 (num_records_per_page (file_hdr' fh))"
  let ?d3 = "page_insert (file_hdr' fh) (page_data fh1 ph) ?slot buf"
  let ?fh2 = "set_page_data fh1 ph ?d3"
  have ld3: "length ?d3 = PS" using hd1(7) by simp
  note sd = handle_on_set_page_data[OF h1 ld3]
  note hd2 = handle_onD[OF sd(1)]
  let ?fh3 = "(if rd_int32 ?d3 OFFSET_NUM_RECORDS = num_records_per_page (file_hdr' fh1)
                  \<and> first_free_page_no (file_hdr' fh1) = pno
               then ?fh2\<lparr>file_hdr' := (file_hdr' fh1)
                       \<lparr>first_free_page_no := rd_int32 ?d3 OFFSET_NEXT_FREE_PAGE_NO\<rparr>\<rparr>
               else ?fh2)"
  have pi: "page_insert (file_hdr' fh1) = page_insert (file_hdr' fh)"
    by (simp add: hdr1 page_insert_def fun_eq_iff)
  have ne: "?slot \<noteq> INT_MAX"
    using ins cp hd1 hdr1
    by (auto simp: insert_record_def Let_def split: if_splits)
  have res: "rid = \<lparr>rid_page_no = pno, slot_no = ?slot\<rparr>"
    "fh4 = unpin_in ?fh3 \<lparr>fd = fd' fh1, page_no = pno\<rparr> True"
    using ins cp ne hd1 hd2(6) sd(3) sd(4) hdr1
    by (auto simp: insert_record_def Let_def get_slot_def page_insert_def)
  have h3: "handle_on PS ?fh3 ph pno" using sd(1) by simp
  have d3: "page_data ?fh3 ph = ?d3" using sd(2) by simp
  note u = handle_on_unpin_in[OF h3, of "\<lparr>fd = fd' fh1, page_no = pno\<rparr>" True]
  have rng: "0 \<le> ?slot \<and> ?slot < num_records_per_page (file_hdr' fh)"
    using Bitmap_first_bit_range[OF refl ne] .
  show ?thesis
  proof (rule that[of ph fh1 pno])
    show "create_page_handle PS fh = (Inr ph, fh1)" by (rule cp)
    show "handle_on PS fh1 ph pno" by (rule h1)
    show "handle_on PS fh4 ph pno" using u(1) res by simp
    show "rid_page_no rid = pno" using res by simp
    show "0 \<le> slot_no rid" using rng res by simp
    show "slot_no rid < num_records_per_page (file_hdr' fh)" using rng res by simp
    show "page_data fh4 ph = page_insert (file_hdr' fh) (page_data fh1 ph) (slot_no rid) buf"
      using u(2) d3 res by simp
    show "fd' fh4 = fd' fh" using u(4) sd(4) fd1 res by simp
    show "file_hdr' fh4 =
       (if rd_int32 (page_data fh4 ph) OFFSET_NUM_RECORDS = num_records_per_page (file_hdr' fh1)
           \<and> first_free_page_no (file_hdr' fh1) = pno
        then (file_hdr' fh1)\<lparr>first_free_page_no :=
                                 rd_int32 (page_data fh4 ph) OFFSET_NEXT_FREE_PAGE_NO\<rparr>
        else file_hdr' fh1)"
    proof -
      have a: "file_hdr' fh4 = file_hdr' ?fh3" using u(3) res(2) by simp
      have b: "page_data fh4 ph = ?d3" using u(2) d3 res(2) by simp
      have c: "file_hdr' ?fh2 = file_hdr' fh1" using sd(3) .
      show ?thesis unfolding a b using c by (simp split: if_splits)
    qed
    show "disk_manager' (buffer_pool_manager' fh4) = disk_manager' (buffer_pool_manager' fh1)"
      using u(5) res sd(5) by simp
  qed
qed


lemma page_insert_next_free:
  assumes hf: "hdr_fits PS hdr" and len: "length d = PS"
    and s0: "0 \<le> slot" and s1: "slot < num_records_per_page hdr"
  shows "rd_int32 (page_insert hdr d slot buf) OFFSET_NEXT_FREE_PAGE_NO
           = rd_int32 d OFFSET_NEXT_FREE_PAGE_NO"
proof -
  let ?off = "sizeof_RmPageHdr + nat (bitmap_size hdr) + nat (slot * record_size hdr)"
  let ?bs = "take (nat (record_size hdr)) buf"
  let ?d1 = "Bitmap_set d sizeof_RmPageHdr slot"
  let ?d2 = "write_bytes ?d1 ?off ?bs"
  let ?d3 = "wr_int32 ?d2 OFFSET_NUM_RECORDS (rd_int32 ?d2 OFFSET_NUM_RECORDS + 1)"
  have e: "page_insert hdr d slot buf = ?d3" by (simp add: page_insert_def Let_def)
  have "rd_int32 ?d3 0 = rd_int32 ?d2 0"
    by (simp add: rd_int32_wr_int32_other OFFSET_NUM_RECORDS_def)
  also have "\<dots> = rd_int32 ?d1 0"
    by (rule rd_int32_cong) (simp_all add: nth_write_bytes_outside sizeof_RmPageHdr_def)
  also have "\<dots> = rd_int32 d 0"
    by (rule rd_int32_cong) (simp_all add: nth_Bitmap_set_outside sizeof_RmPageHdr_def)
  finally show ?thesis using e by (simp add: OFFSET_NEXT_FREE_PAGE_NO_def)
qed

subsection \<open>Pages on the disk\<close>













subsection \<open>A page that the pool keeps\<close>








lemma on_disk_fd2pageno [simp]:
  "on_disk PS P (dm\<lparr>fd2pageno' := x\<rparr>) pid = on_disk PS P dm pid"
proof -
  have "os_contents (dm\<lparr>fd2pageno' := x\<rparr>) = os_contents dm"
    by (auto simp: os_contents_def fun_eq_iff split: option.splits)
  then show ?thesis by (simp add: on_disk_def disk_page_def)
qed

lemma fds_distinct_fd2pageno [simp]:
  "fds_distinct (dm\<lparr>fd2pageno' := x\<rparr>) = fds_distinct dm"
  by (simp add: fds_distinct_def)







subsection \<open>A record in its slot\<close>










subsection \<open>A record that the file keeps\<close>





































lemma pool_inv_insert_record:
  assumes inv: "pool_inv PS (buffer_pool_manager' fh)" and hf: "hdr_fits PS (file_hdr' fh)"
    and ins: "insert_record PS fh buf = (Inr rid, fh1)"
  shows "pool_inv PS (buffer_pool_manager' fh1) \<and> hdr_fits PS (file_hdr' fh1)"
proof -
  from insert_record_result[OF inv hf ins] obtain ph fh0 pno where
    cp: "create_page_handle PS fh = (Inr ph, fh0)"
    and h1: "handle_on PS fh1 ph pno"
    and hdr1: "file_hdr' fh1 =
       (if rd_int32 (page_data fh1 ph) OFFSET_NUM_RECORDS = num_records_per_page (file_hdr' fh0)
           \<and> first_free_page_no (file_hdr' fh0) = pno
        then (file_hdr' fh0)\<lparr>first_free_page_no :=
                                 rd_int32 (page_data fh1 ph) OFFSET_NEXT_FREE_PAGE_NO\<rparr>
        else file_hdr' fh0)"
    by blast
  from create_page_handle_on[OF inv hdr_fits_page_size[OF hf] cp]
  obtain n where hdr0: "file_hdr' fh0 = (file_hdr' fh)\<lparr>num_pages := n\<rparr>" by blast
  have "hdr_fits PS (file_hdr' fh1)"
    using hf hdr1 hdr0 by (auto simp: hdr_fits_def split: if_splits)
  then show ?thesis using handle_onD(3)[OF h1] by simp
qed

text \<open>
  C10. \<open>create_new_page_handle\<close> leaves the head of the free-page list as it is. So when
  the list is empty, an \<open>insert_record\<close> that succeeds takes the next page number of
  the disk manager and advances that counter to another number (the successor, unless
  the counter was the largest \<open>int\<close> of 32 bits), counts one more page and leaves the
  list empty, whatever room the page of the previous insert still has; the file is
  then again in a state where the same holds.
\<close>

theorem insert_allocates_fresh_page_without_free_list:
  "first_free_page_no (file_hdr' (snd (create_new_page_handle PAGE_SIZE fh)))
     = first_free_page_no (file_hdr' fh) \<and>
   (pool_inv PAGE_SIZE (buffer_pool_manager' fh) \<and> hdr_fits PAGE_SIZE (file_hdr' fh) \<and>
    first_free_page_no (file_hdr' fh) = RM_NO_FREE_PAGE \<and>
    insert_record PAGE_SIZE fh buf = (Inr rid, fh1) \<longrightarrow>
      first_free_page_no (file_hdr' fh1) = RM_NO_FREE_PAGE \<and>
      num_pages (file_hdr' fh1) = wrap32 (num_pages (file_hdr' fh) + 1) \<and>
      (is_int32 (num_pages (file_hdr' fh) + 1) \<longrightarrow>
         num_pages (file_hdr' fh1) = num_pages (file_hdr' fh) + 1) \<and>
      rid_page_no rid = fd2pageno' (disk_manager' (buffer_pool_manager' fh)) (fd' fh) \<and>
      fd2pageno' (disk_manager' (buffer_pool_manager' fh1)) (fd' fh1)
        = wrap32 (rid_page_no rid + 1) \<and>
      fd2pageno' (disk_manager' (buffer_pool_manager' fh1)) (fd' fh1) \<noteq> rid_page_no rid \<and>
      (is_int32 (rid_page_no rid + 1) \<longrightarrow>
         fd2pageno' (disk_manager' (buffer_pool_manager' fh1)) (fd' fh1) = rid_page_no rid + 1) \<and>
      pool_inv PAGE_SIZE (buffer_pool_manager' fh1) \<and> hdr_fits PAGE_SIZE (file_hdr' fh1) \<and>
      fd' fh1 = fd' fh)"
proof (intro conjI impI)
  show "first_free_page_no (file_hdr' (snd (create_new_page_handle PAGE_SIZE fh)))
     = first_free_page_no (file_hdr' fh)"
    by (rule create_new_page_handle_first_free)
next
  assume a: "pool_inv PAGE_SIZE (buffer_pool_manager' fh) \<and> hdr_fits PAGE_SIZE (file_hdr' fh) \<and>
    first_free_page_no (file_hdr' fh) = RM_NO_FREE_PAGE \<and>
    insert_record PAGE_SIZE fh buf = (Inr rid, fh1)"
  then have inv: "pool_inv PAGE_SIZE (buffer_pool_manager' fh)"
    and hf: "hdr_fits PAGE_SIZE (file_hdr' fh)"
    and em: "first_free_page_no (file_hdr' fh) = RM_NO_FREE_PAGE"
    and ins: "insert_record PAGE_SIZE fh buf = (Inr rid, fh1)"
    by simp_all
  from insert_record_result[OF inv hf ins] obtain ph fh0 pno where
    cp: "create_page_handle PAGE_SIZE fh = (Inr ph, fh0)"
    and h0: "handle_on PAGE_SIZE fh0 ph pno" and h1: "handle_on PAGE_SIZE fh1 ph pno"
    and rp: "rid_page_no rid = pno"
    and s0: "0 \<le> slot_no rid" and s1: "slot_no rid < num_records_per_page (file_hdr' fh)"
    and pd: "page_data fh1 ph = page_insert (file_hdr' fh) (page_data fh0 ph) (slot_no rid) buf"
    and fd1: "fd' fh1 = fd' fh"
    and hdr1: "file_hdr' fh1 =
       (if rd_int32 (page_data fh1 ph) OFFSET_NUM_RECORDS = num_records_per_page (file_hdr' fh0)
           \<and> first_free_page_no (file_hdr' fh0) = pno
        then (file_hdr' fh0)\<lparr>first_free_page_no :=
                                 rd_int32 (page_data fh1 ph) OFFSET_NEXT_FREE_PAGE_NO\<rparr>
        else file_hdr' fh0)"
    and dk: "disk_manager' (buffer_pool_manager' fh1) = disk_manager' (buffer_pool_manager' fh0)"
    by blast
  from create_page_handle_on[OF inv hdr_fits_page_size[OF hf] cp] em
  obtain q n where hq: "handle_on PAGE_SIZE fh0 ph q"
    and hdr0: "file_hdr' fh0 = (file_hdr' fh)\<lparr>num_pages := n\<rparr>"
    and q: "q = fd2pageno' (disk_manager' (buffer_pool_manager' fh)) (fd' fh)"
    and cntq: "fd2pageno' (disk_manager' (buffer_pool_manager' fh0)) (fd' fh) = wrap32 (q + 1)"
    and np: "num_pages (file_hdr' fh0) = wrap32 (num_pages (file_hdr' fh) + 1)"
    and nf: "rd_int32 (page_data fh0 ph) OFFSET_NEXT_FREE_PAGE_NO = RM_NO_FREE_PAGE"
    by blast
  have qp: "q = pno" using handle_on_unique[OF hq h0] .
  have pno: "pno = fd2pageno' (disk_manager' (buffer_pool_manager' fh)) (fd' fh)"
    and cnt: "fd2pageno' (disk_manager' (buffer_pool_manager' fh0)) (fd' fh) = wrap32 (pno + 1)"
    using q cntq qp by simp_all
  have keep: "rd_int32 (page_data fh1 ph) OFFSET_NEXT_FREE_PAGE_NO = RM_NO_FREE_PAGE"
    using page_insert_next_free[OF hf handle_onD(7)[OF h0] s0 s1, of buf] pd nf by simp
  show "first_free_page_no (file_hdr' fh1) = RM_NO_FREE_PAGE"
    using hdr1 hdr0 em keep by (simp split: if_splits)
  show np1: "num_pages (file_hdr' fh1) = wrap32 (num_pages (file_hdr' fh) + 1)"
    using hdr1 np by (simp split: if_splits)
  show "num_pages (file_hdr' fh1) = num_pages (file_hdr' fh) + 1"
    if "is_int32 (num_pages (file_hdr' fh) + 1)"
    using np1 that by (simp add: wrap32_int32)
  show "rid_page_no rid = fd2pageno' (disk_manager' (buffer_pool_manager' fh)) (fd' fh)"
    using rp pno by simp
  show c1: "fd2pageno' (disk_manager' (buffer_pool_manager' fh1)) (fd' fh1)
              = wrap32 (rid_page_no rid + 1)"
    using dk cnt fd1 rp by simp
  show "fd2pageno' (disk_manager' (buffer_pool_manager' fh1)) (fd' fh1) \<noteq> rid_page_no rid"
    using c1 by (simp add: wrap32_succ_neq)
  show "fd2pageno' (disk_manager' (buffer_pool_manager' fh1)) (fd' fh1) = rid_page_no rid + 1"
    if "is_int32 (rid_page_no rid + 1)"
    using c1 that by (simp add: wrap32_int32)
  show "pool_inv PAGE_SIZE (buffer_pool_manager' fh1)"
    using pool_inv_insert_record[OF inv hf ins] by simp
  show "hdr_fits PAGE_SIZE (file_hdr' fh1)"
    using pool_inv_insert_record[OF inv hf ins] by simp
  show "fd' fh1 = fd' fh" by (rule fd1)
qed


theorem insert_allocates_fresh_page_without_free_list_witness:
  "first_free_page_no (file_hdr' ex_file) = RM_NO_FREE_PAGE \<and>
   fst (insert_record 16 ex_file [1, 2]) = Inr \<lparr>rid_page_no = 1, slot_no = 0\<rparr> \<and>
   first_free_page_no (file_hdr' ex_file_one) = RM_NO_FREE_PAGE \<and>
   num_pages (file_hdr' ex_file_one) = num_pages (file_hdr' ex_file) + 1 \<and>
   fst (insert_record 16 ex_file_one [3, 4]) = Inr \<lparr>rid_page_no = 2, slot_no = 0\<rparr>"
proof -
  have inv: "pool_inv 16 (buffer_pool_manager' ex_file)"
    by (simp add: ex_file_def pool_inv_new)
  have hf: "hdr_fits 16 (file_hdr' ex_file)"
    by (simp add: ex_file_def ex_hdr_def hdr_fits_def sizeof_RmPageHdr_def)
  have em: "first_free_page_no (file_hdr' ex_file) = RM_NO_FREE_PAGE"
    by (simp add: ex_file_def ex_hdr_def)
  have n1: "num_pages (file_hdr' ex_file) = 1"
    by (simp add: ex_file_def ex_hdr_def)
  have f: "fst (insert_record 16 ex_file [1, 2]) = Inr \<lparr>rid_page_no = 1, slot_no = 0\<rparr>"
    by code_simp
  then have ins: "insert_record 16 ex_file [1, 2]
      = (Inr \<lparr>rid_page_no = 1, slot_no = 0\<rparr>, ex_file_one)"
    by (simp add: prod_eq_iff ex_file_one_def)
  have g: "fst (insert_record 16 ex_file_one [3, 4]) = Inr \<lparr>rid_page_no = 2, slot_no = 0\<rparr>"
    by code_simp
  show ?thesis
    using insert_allocates_fresh_page_without_free_list
      [of 16 ex_file "[1, 2]" "\<lparr>rid_page_no = 1, slot_no = 0\<rparr>" ex_file_one]
      inv hf em ins f g n1
    by (simp add: is_int32_def)
qed

lemma delete_header_reads:
  assumes len: "8 \<le> length d"
  shows "rd_int32 (wr_int32 (wr_int32 (Bitmap_reset d sizeof_RmPageHdr slot) OFFSET_NUM_RECORDS v)
            OFFSET_NEXT_FREE_PAGE_NO w) OFFSET_NUM_RECORDS
           = rd_int32 (wr_int32 (Bitmap_reset d sizeof_RmPageHdr slot) OFFSET_NUM_RECORDS v)
               OFFSET_NUM_RECORDS"
    and "is_int32 w \<Longrightarrow>
         rd_int32 (wr_int32 (wr_int32 (Bitmap_reset d sizeof_RmPageHdr slot) OFFSET_NUM_RECORDS v)
            OFFSET_NEXT_FREE_PAGE_NO w) OFFSET_NEXT_FREE_PAGE_NO = w"
  using len
  by (simp_all add: rd_int32_wr_int32_other rd_wr_int32_same_int32
      OFFSET_NUM_RECORDS_def OFFSET_NEXT_FREE_PAGE_NO_def)

text \<open>
  C7. An \<open>insert_record\<close> that brings the record count of a page to exactly
  \<open>num_records_per_page\<close> leaves the head of the free-page list at the next-free link of
  that page: the page was the head, or the list was empty, and the head is now past it.
  A \<open>delete_record\<close> on a page that was full (its count after the delete plus one is
  \<open>num_records_per_page\<close>) makes that page the head, its link the former head, and the
  \<open>create_page_handle\<close> that follows returns that page.
\<close>

theorem free_list_head_at_full_boundary:
  "(pool_inv PAGE_SIZE (buffer_pool_manager' fh) \<and> hdr_fits PAGE_SIZE (file_hdr' fh) \<and>
    insert_record PAGE_SIZE fh buf = (Inr rid, fh1) \<longrightarrow>
      (\<exists>d. cached_page fh1 (rid_page_no rid) = Some d \<and>
           (first_free_page_no (file_hdr' fh) = rid_page_no rid \<or>
            first_free_page_no (file_hdr' fh) = RM_NO_FREE_PAGE) \<and>
           (rd_int32 d OFFSET_NUM_RECORDS = num_records_per_page (file_hdr' fh) \<longrightarrow>
              first_free_page_no (file_hdr' fh1) = rd_int32 d OFFSET_NEXT_FREE_PAGE_NO))) \<and>
   (pool_inv PAGE_SIZE (buffer_pool_manager' fh) \<and> hdr_fits PAGE_SIZE (file_hdr' fh) \<and>
    is_int32 (first_free_page_no (file_hdr' fh)) \<and> rid_page_no rid2 \<noteq> RM_NO_FREE_PAGE \<and>
    delete_record PAGE_SIZE fh rid2 = (Inr (), fh2) \<longrightarrow>
      (\<exists>d. cached_page fh2 (rid_page_no rid2) = Some d \<and>
           (rd_int32 d OFFSET_NUM_RECORDS + 1 = num_records_per_page (file_hdr' fh) \<longrightarrow>
              first_free_page_no (file_hdr' fh2) = rid_page_no rid2 \<and>
              rd_int32 d OFFSET_NEXT_FREE_PAGE_NO = first_free_page_no (file_hdr' fh) \<and>
              (\<exists>ph fh3. create_page_handle PAGE_SIZE fh2 = (Inr ph, fh3) \<and>
                 get_page_id fh3 ph = \<lparr>fd = fd' fh, page_no = rid_page_no rid2\<rparr> \<and>
                 page_data fh3 ph = d))))"
proof (intro conjI impI)
  assume a: "pool_inv PAGE_SIZE (buffer_pool_manager' fh) \<and> hdr_fits PAGE_SIZE (file_hdr' fh) \<and>
    insert_record PAGE_SIZE fh buf = (Inr rid, fh1)"
  then have inv: "pool_inv PAGE_SIZE (buffer_pool_manager' fh)"
    and hf: "hdr_fits PAGE_SIZE (file_hdr' fh)"
    and ins: "insert_record PAGE_SIZE fh buf = (Inr rid, fh1)"
    by simp_all
  from insert_record_result[OF inv hf ins] obtain ph fh0 pno where
    cp: "create_page_handle PAGE_SIZE fh = (Inr ph, fh0)"
    and h0: "handle_on PAGE_SIZE fh0 ph pno" and h1: "handle_on PAGE_SIZE fh1 ph pno"
    and rp: "rid_page_no rid = pno"
    and s0: "0 \<le> slot_no rid" and s1: "slot_no rid < num_records_per_page (file_hdr' fh)"
    and pd: "page_data fh1 ph = page_insert (file_hdr' fh) (page_data fh0 ph) (slot_no rid) buf"
    and fd1: "fd' fh1 = fd' fh"
    and hdr1: "file_hdr' fh1 =
       (if rd_int32 (page_data fh1 ph) OFFSET_NUM_RECORDS = num_records_per_page (file_hdr' fh0)
           \<and> first_free_page_no (file_hdr' fh0) = pno
        then (file_hdr' fh0)\<lparr>first_free_page_no :=
                                 rd_int32 (page_data fh1 ph) OFFSET_NEXT_FREE_PAGE_NO\<rparr>
        else file_hdr' fh0)"
    by blast
  from create_page_handle_on[OF inv hdr_fits_page_size[OF hf] cp]
  obtain q n where hq: "handle_on PAGE_SIZE fh0 ph q"
    and hdr0: "file_hdr' fh0 = (file_hdr' fh)\<lparr>num_pages := n\<rparr>"
    and c1: "first_free_page_no (file_hdr' fh) \<noteq> RM_NO_FREE_PAGE \<longrightarrow>
               q = first_free_page_no (file_hdr' fh)"
    and c2: "first_free_page_no (file_hdr' fh) = RM_NO_FREE_PAGE \<longrightarrow>
               rd_int32 (page_data fh0 ph) OFFSET_NEXT_FREE_PAGE_NO = RM_NO_FREE_PAGE"
    by blast
  have qp: "q = pno" using handle_on_unique[OF hq h0] .
  have keep: "rd_int32 (page_data fh1 ph) OFFSET_NEXT_FREE_PAGE_NO
                = rd_int32 (page_data fh0 ph) OFFSET_NEXT_FREE_PAGE_NO"
    using page_insert_next_free[OF hf handle_onD(7)[OF h0] s0 s1, of buf] pd by simp
  have cached: "cached_page fh1 (rid_page_no rid) = Some (page_data fh1 ph)"
    using cached_page_handle_on[OF h1] rp by simp
  have dis: "first_free_page_no (file_hdr' fh) = rid_page_no rid \<or>
             first_free_page_no (file_hdr' fh) = RM_NO_FREE_PAGE"
    using c1 qp rp by auto
  have adv: "rd_int32 (page_data fh1 ph) OFFSET_NUM_RECORDS = num_records_per_page (file_hdr' fh)
             \<longrightarrow> first_free_page_no (file_hdr' fh1)
                   = rd_int32 (page_data fh1 ph) OFFSET_NEXT_FREE_PAGE_NO"
    using hdr1 hdr0 c1 c2 qp keep by (auto split: if_splits)
  show "\<exists>d. cached_page fh1 (rid_page_no rid) = Some d \<and>
           (first_free_page_no (file_hdr' fh) = rid_page_no rid \<or>
            first_free_page_no (file_hdr' fh) = RM_NO_FREE_PAGE) \<and>
           (rd_int32 d OFFSET_NUM_RECORDS = num_records_per_page (file_hdr' fh) \<longrightarrow>
              first_free_page_no (file_hdr' fh1) = rd_int32 d OFFSET_NEXT_FREE_PAGE_NO)"
    using cached dis adv by blast
next
  assume a: "pool_inv PAGE_SIZE (buffer_pool_manager' fh) \<and> hdr_fits PAGE_SIZE (file_hdr' fh) \<and>
    is_int32 (first_free_page_no (file_hdr' fh)) \<and> rid_page_no rid2 \<noteq> RM_NO_FREE_PAGE \<and>
    delete_record PAGE_SIZE fh rid2 = (Inr (), fh2)"
  then have inv: "pool_inv PAGE_SIZE (buffer_pool_manager' fh)"
    and hf: "hdr_fits PAGE_SIZE (file_hdr' fh)"
    and i32: "is_int32 (first_free_page_no (file_hdr' fh))"
    and nn: "rid_page_no rid2 \<noteq> RM_NO_FREE_PAGE"
    and del: "delete_record PAGE_SIZE fh rid2 = (Inr (), fh2)"
    by simp_all
  let ?pno = "rid_page_no rid2"
  let ?rpp = "num_records_per_page (file_hdr' fh)"
  let ?head = "first_free_page_no (file_hdr' fh)"
  obtain r fh0 where fp0: "fetch_page_handle PAGE_SIZE fh ?pno = (r, fh0)"
    by (cases "fetch_page_handle PAGE_SIZE fh ?pno")
  from del fp0 obtain ph where r: "r = Inr ph"
    by (auto simp: delete_record_def split: sum.splits)
  have fp: "fetch_page_handle PAGE_SIZE fh ?pno = (Inr ph, fh0)" using fp0 r by simp
  from fetch_page_handle_on[OF inv fp]
  have h0: "handle_on PAGE_SIZE fh0 ph ?pno" and hdr0: "file_hdr' fh0 = file_hdr' fh"
    and fd0: "fd' fh0 = fd' fh" by simp_all
  note hd0 = handle_onD[OF h0]
  have ps: "8 \<le> PAGE_SIZE" using hdr_fits_page_size[OF hf] .
  let ?d1 = "Bitmap_reset (page_data fh0 ph) sizeof_RmPageHdr (slot_no rid2)"
  let ?d2 = "wr_int32 ?d1 OFFSET_NUM_RECORDS (rd_int32 ?d1 OFFSET_NUM_RECORDS - 1)"
  let ?d3 = "wr_int32 ?d2 OFFSET_NEXT_FREE_PAGE_NO ?head"
  let ?fha = "set_page_data fh0 ph ?d2"
  have l2: "length ?d2 = PAGE_SIZE" using hd0(7) by simp
  have l3: "length ?d3 = PAGE_SIZE" using hd0(7) by simp
  note sa = handle_on_set_page_data[OF h0 l2]
  note hda = handle_onD[OF sa(1)]
  show "\<exists>d. cached_page fh2 ?pno = Some d \<and>
           (rd_int32 d OFFSET_NUM_RECORDS + 1 = ?rpp \<longrightarrow>
              first_free_page_no (file_hdr' fh2) = ?pno \<and>
              rd_int32 d OFFSET_NEXT_FREE_PAGE_NO = ?head \<and>
              (\<exists>ph fh3. create_page_handle PAGE_SIZE fh2 = (Inr ph, fh3) \<and>
                 get_page_id fh3 ph = \<lparr>fd = fd' fh, page_no = ?pno\<rparr> \<and>
                 page_data fh3 ph = d))"
  proof (cases "rd_int32 ?d2 OFFSET_NUM_RECORDS + 1 = ?rpp")
    case False
    have e: "fh2 = unpin_in ?fha \<lparr>fd = fd' fh, page_no = ?pno\<rparr> True"
      using del fp False hd0(1,2) hdr0 sa(3) hda(6) fd0 sa(4)
      by (auto simp: delete_record_def Let_def split: if_splits)
    note u = handle_on_unpin_in[OF sa(1), of "\<lparr>fd = fd' fh, page_no = ?pno\<rparr>" True]
    have "cached_page fh2 ?pno = Some ?d2"
      using cached_page_handle_on[OF u(1)] u(2) u(4) sa(2) sa(4) fd0 e by simp
    then show ?thesis using False by auto
  next
    case True
    let ?fhb = "set_page_data ?fha ph ?d3"
    note sb = handle_on_set_page_data[OF sa(1) l3]
    note hdb = handle_onD[OF sb(1)]
    let ?fhc = "?fhb\<lparr>file_hdr' := (file_hdr' fh)\<lparr>first_free_page_no := ?pno\<rparr>\<rparr>"
    have hc: "handle_on PAGE_SIZE ?fhc ph ?pno" using sb(1) by simp
    have e: "fh2 = unpin_in ?fhc \<lparr>fd = fd' fh, page_no = ?pno\<rparr> True"
      using del fp True hd0(1,2) hdr0 sa(2) sa(3) sa(4) sb(3) sb(4) hdb(6) fd0
      by (auto simp: delete_record_def release_page_handle_def Let_def split: if_splits)
    note u = handle_on_unpin_in[OF hc, of "\<lparr>fd = fd' fh, page_no = ?pno\<rparr>" True]
    have h2: "handle_on PAGE_SIZE fh2 ph ?pno" using u(1) e by simp
    have pd2: "page_data fh2 ph = ?d3" using u(2) sb(2) e by simp
    have fd2: "fd' fh2 = fd' fh" using u(4) sb(4) sa(4) fd0 e by simp
    have hdr2: "file_hdr' fh2 = (file_hdr' fh)\<lparr>first_free_page_no := ?pno\<rparr>"
      using u(3) e by simp
    have cached: "cached_page fh2 ?pno = Some ?d3"
      using cached_page_handle_on[OF h2] pd2 by simp
    have l0: "8 \<le> length (page_data fh0 ph)" using hd0(7) ps by simp
    note rd = delete_header_reads[OF l0, where slot = "slot_no rid2"
        and v = "rd_int32 ?d1 OFFSET_NUM_RECORDS - 1" and w = ?head]
    note hd2 = handle_onD[OF h2]
    have phe: "ph = \<lparr>page = page ph, page_hdr = 0, bitmap = sizeof_RmPageHdr\<rparr>"
      using hd2(1,2) by simp
    from fetch_page_handle_cached[OF hd2(3) hd2(4)]
    obtain fh3 where f3: "fetch_page_handle PAGE_SIZE fh2 ?pno = (Inr ph, fh3)"
      and dd: "data' (pages' (buffer_pool_manager' fh3) ! page ph)
                 = data' (pages' (buffer_pool_manager' fh2) ! page ph)"
      using phe by metis
    have h3: "handle_on PAGE_SIZE fh3 ph ?pno" and fd3: "fd' fh3 = fd' fh2"
      using fetch_page_handle_on[OF hd2(3) f3] by simp_all
    have c3: "create_page_handle PAGE_SIZE fh2 = (Inr ph, fh3)"
      using f3 hdr2 nn by (simp add: create_page_handle_def)
    have g3: "get_page_id fh3 ph = \<lparr>fd = fd' fh, page_no = ?pno\<rparr>"
      using handle_onD(6)[OF h3] fd3 fd2 by simp
    have p3: "page_data fh3 ph = ?d3" using dd pd2 by (simp add: page_data_def)
    have "first_free_page_no (file_hdr' fh2) = ?pno" using hdr2 by simp
    moreover have "rd_int32 ?d3 OFFSET_NEXT_FREE_PAGE_NO = ?head" using rd(2)[OF i32] .
    ultimately show ?thesis using cached c3 g3 p3 by blast
  qed
qed


theorem free_list_head_at_full_boundary_witness:
  "fst (insert_record 16 ex_file_unit [1, 2]) = Inr \<lparr>rid_page_no = 1, slot_no = 0\<rparr> \<and>
   first_free_page_no (file_hdr' ex_unit_full) = - 1 \<and>
   fst (delete_record 16 ex_unit_full \<lparr>rid_page_no = 1, slot_no = 0\<rparr>) = Inr () \<and>
   first_free_page_no (file_hdr' ex_unit_freed) = 1"
proof -
  let ?rid = "\<lparr>rid_page_no = 1, slot_no = 0\<rparr>"
  let ?dA = "[255, 255, 255, 255, 1, 0, 0, 0, 1, 1, 2, 0, 0, 0, 0, 0] :: byte list"
  let ?dB = "[255, 255, 255, 255, 0, 0, 0, 0, 0, 1, 2, 0, 0, 0, 0, 0] :: byte list"
  have inv: "pool_inv 16 (buffer_pool_manager' ex_file_unit)"
    by (simp add: ex_file_unit_def ex_file_def pool_inv_new)
  have hf: "hdr_fits 16 (file_hdr' ex_file_unit)"
    by (simp add: ex_file_unit_def ex_hdr_def hdr_fits_def sizeof_RmPageHdr_def)
  have i: "fst (insert_record 16 ex_file_unit [1, 2]) = Inr ?rid"
    by code_simp
  then have ins: "insert_record 16 ex_file_unit [1, 2] = (Inr ?rid, ex_unit_full)"
    by (simp add: prod_eq_iff ex_unit_full_def)
  have cA: "cached_page ex_unit_full 1 = Some ?dA" by code_simp
  have rA: "rd_int32 ?dA OFFSET_NUM_RECORDS = 1" "rd_int32 ?dA OFFSET_NEXT_FREE_PAGE_NO = - 1"
    by code_simp+
  have rpp: "num_records_per_page (file_hdr' ex_file_unit) = 1"
    by (simp add: ex_file_unit_def ex_hdr_def)
  have p1: "first_free_page_no (file_hdr' ex_unit_full) = - 1"
    using free_list_head_at_full_boundary
      [of 16 ex_file_unit "[1, 2]" ?rid ex_unit_full ?rid ex_unit_freed] inv hf ins cA rA rpp
    by auto
  have invA: "pool_inv 16 (buffer_pool_manager' ex_unit_full)"
    and hfA: "hdr_fits 16 (file_hdr' ex_unit_full)"
    using pool_inv_insert_record[OF inv hf ins] by simp_all
  have d: "fst (delete_record 16 ex_unit_full ?rid) = Inr ()" by code_simp
  then have del: "delete_record 16 ex_unit_full ?rid = (Inr (), ex_unit_freed)"
    by (simp add: prod_eq_iff ex_unit_freed_def)
  have cB: "cached_page ex_unit_freed 1 = Some ?dB" by code_simp
  have rB: "rd_int32 ?dB OFFSET_NUM_RECORDS = 0" by code_simp
  have rppA: "num_records_per_page (file_hdr' ex_unit_full) = 1" by code_simp
  have i32: "is_int32 (first_free_page_no (file_hdr' ex_unit_full))"
    using p1 by (simp add: is_int32_def)
  have p2: "first_free_page_no (file_hdr' ex_unit_freed) = 1"
    using free_list_head_at_full_boundary
      [of 16 ex_unit_full "[1, 2]" ?rid ex_unit_full ?rid ex_unit_freed]
      invA hfA i32 del cB rB rppA
    by (auto simp: RM_NO_FREE_PAGE_def)
  show ?thesis using i p1 d p2 by simp
qed

end
